theory Spec2Isabelle
  imports
    Complex_Main
    "HOL-Library.Char_ord"
    "HOL-Library.List_Lexorder"
    "HOL-Library.Sublist"
begin

section \<open>Strings as the Python sources use them\<close>

text \<open>
  Texts are Python \<open>str\<close> values.  They are modelled as \<^typ>\<open>string\<close>, each
  \<^typ>\<open>char\<close> read as the code point of the same number (U+0000 .. U+00FF), so
  \<open>length\<close> and slicing count what Python counts.  The two characters of the
  sources outside that range (the em dash and the bullet of \<open>payload_to_text\<close>)
  are written as their three UTF-8 bytes; none of the six bytes is a letter, a digit
  or white space, which is all the functions below ask of them.
\<close>

definition code :: "char \<Rightarrow> nat" where
  "code c = of_char c"

text \<open>\<open>str.isspace\<close>, the class \<open>\s\<close> and what \<open>str.strip()\<close> removes.\<close>

definition isspace :: "char \<Rightarrow> bool" where
  "isspace c = (let n = code c in
     (9 \<le> n \<and> n \<le> 13) \<or> (28 \<le> n \<and> n \<le> 32) \<or> n = 133 \<or> n = 160)"

text \<open>The regular-expression classes \<open>[A-Za-z]\<close>, \<open>[a-z]\<close> and \<open>\d\<close>.\<close>

definition is_alpha :: "char \<Rightarrow> bool" where
  "is_alpha c = (let n = code c in (65 \<le> n \<and> n \<le> 90) \<or> (97 \<le> n \<and> n \<le> 122))"

definition is_lower_alpha :: "char \<Rightarrow> bool" where
  "is_lower_alpha c = (let n = code c in 97 \<le> n \<and> n \<le> 122)"

definition is_digit :: "char \<Rightarrow> bool" where
  "is_digit c = (let n = code c in 48 \<le> n \<and> n \<le> 57)"

text \<open>
  The class \<open>\w\<close> of a \<open>str\<close> pattern: \<open>str.isalnum\<close> or the underscore.  Below
  U+0100 that is the ASCII letters and digits, the underscore, the ordinal indicators,
  the micro sign, the superscript digits, the vulgar fractions and the accented letters.
\<close>

definition is_word :: "char \<Rightarrow> bool" where
  "is_word c = (let n = code c in
     is_alpha c \<or> is_digit c \<or> n = 95 \<or> n = 170 \<or> n = 178 \<or> n = 179 \<or> n = 181 \<or>
     n = 185 \<or> n = 186 \<or> (188 \<le> n \<and> n \<le> 190) \<or>
     (192 \<le> n \<and> n \<noteq> 215 \<and> n \<noteq> 247))"

text \<open>\<open>str.lower()\<close>: the ASCII capitals and the accented capitals move up by 32.\<close>

definition lower_char :: "char \<Rightarrow> char" where
  "lower_char c = (let n = code c in
     if (65 \<le> n \<and> n \<le> 90) \<or> (192 \<le> n \<and> n \<le> 222 \<and> n \<noteq> 215)
     then char_of (n + 32) else c)"

definition lower :: "string \<Rightarrow> string" where
  "lower s = map lower_char s"

text \<open>\<open>str.strip()\<close> with no argument.\<close>

definition strip :: "string \<Rightarrow> string" where
  "strip s = rev (dropWhile isspace (rev (dropWhile isspace s)))"

text \<open>The test \<open>k in t\<close> on two strings.\<close>

definition contains :: "string \<Rightarrow> string \<Rightarrow> bool" where
  "contains t k = sublist k t"

text \<open>
  The slices \<open>xs[:n]\<close> and \<open>xs[n:]\<close>: a negative \<open>n\<close> counts from the end.
\<close>

definition py_take :: "int \<Rightarrow> 'a list \<Rightarrow> 'a list" where
  "py_take n xs = (if n < 0 then take (length xs - nat (- n)) xs else take (nat n) xs)"

definition py_drop :: "int \<Rightarrow> 'a list \<Rightarrow> 'a list" where
  "py_drop n xs = (if n < 0 then drop (length xs - nat (- n)) xs else drop (nat n) xs)"

text \<open>\<open>sep.join(xs)\<close>.\<close>

fun join :: "string \<Rightarrow> string list \<Rightarrow> string" where
  "join sep [] = []"
| "join sep [x] = x"
| "join sep (x # y # ys) = x @ sep @ join sep (y # ys)"

text \<open>
  \<open>re.findall\<close> of a pattern \<open>[class]{n,}\<close>: the maximal runs of characters of the
  class, those shorter than \<open>n\<close> dropped.  \<open>cur\<close> is the run being read.
\<close>

fun runs :: "(char \<Rightarrow> bool) \<Rightarrow> nat \<Rightarrow> string \<Rightarrow> string \<Rightarrow> string list" where
  "runs P n cur [] = (if n \<le> length cur then [cur] else [])"
| "runs P n cur (c # cs) =
     (if P c then runs P n (cur @ [c]) cs
      else (if n \<le> length cur then [cur] else []) @ runs P n [] cs)"

section \<open>Scoring: keyword sets\<close>

text \<open>
  \<open>clean_tokens\<close> of HogueResMaster\_v11.py keeps every token; the function of the
  same name in HogueResMaster\_v9\_2\_2.py and HogueResMaster\_v11\_final\_fat.py drops
  the members of \<open>STOPWORDS\<close>.
\<close>

definition STOPWORDS :: "string set" where
  "STOPWORDS = set [''a'', ''an'', ''and'', ''or'', ''the'', ''but'', ''with'', ''for'', ''to'',
     ''from'', ''on'', ''in'', ''at'', ''as'', ''by'', ''of'', ''be'', ''is'', ''are'', ''was'',
     ''were'', ''will'', ''would'', ''shall'', ''should'', ''can'', ''could'', ''into'',
     ''within'', ''without'', ''among'', ''across'', ''per'', ''plus'', ''via'', ''than'',
     ''then'', ''that'', ''this'', ''those'', ''it'', ''its'', ''your'', ''you'', ''we'', ''our'',
     ''they'', ''them'', ''their'', ''he'', ''she'', ''his'', ''her'', ''who'', ''whom'',
     ''which'', ''what'', ''when'', ''where'', ''why'', ''how'']"

definition clean_tokens_v11 :: "string \<Rightarrow> string list" where
  "clean_tokens_v11 text = runs is_alpha 2 [] (lower text)"

definition clean_tokens :: "string \<Rightarrow> string list" where
  "clean_tokens text = filter (\<lambda>t. t \<notin> STOPWORDS) (runs is_alpha 2 [] (lower text))"

text \<open>The loop of \<open>kw_set\<close>: \<open>seen\<close> and \<open>out\<close> are its two variables.\<close>

fun kw_loop :: "string list \<Rightarrow> string set \<Rightarrow> string list \<Rightarrow> string list" where
  "kw_loop [] seen out = out"
| "kw_loop (t # ts) seen out =
     (if t \<notin> seen then kw_loop ts (insert t seen) (out @ [t]) else kw_loop ts seen out)"

text \<open>\<open>out[:topn]\<close>, the list whose set \<open>kw_set\<close> returns.\<close>

definition kw_list_v11 :: "string \<Rightarrow> int \<Rightarrow> string list" where
  "kw_list_v11 text topn = py_take topn (kw_loop (clean_tokens_v11 text) {} [])"

definition kw_list :: "string \<Rightarrow> int \<Rightarrow> string list" where
  "kw_list text topn = py_take topn (kw_loop (clean_tokens text) {} [])"

definition kw_set_v11 :: "string \<Rightarrow> int \<Rightarrow> string set" where
  "kw_set_v11 text topn = set (kw_list_v11 text topn)"

definition kw_set :: "string \<Rightarrow> int \<Rightarrow> string set" where
  "kw_set text topn = set (kw_list text topn)"

section \<open>Scoring: composite scores and the letter grade\<close>

text \<open>
  Python's \<open>round\<close> of a float with one argument: the nearest integer, a tie going to
  the even one.  The floats rounded below are \<open>100 * k / n\<close> with \<open>k \<le> n \<le> 400\<close>
  and \<open>0.5 * cov + 0.5 * ats\<close> with integers \<open>cov\<close> and \<open>ats\<close>.  The second is
  exact in binary floating point.  The first is the double nearest to the quotient: it is
  the quotient itself when that is a tie, and otherwise the quotient is at least
  \<open>1 / 800\<close> away from every tie, so both round as the exact rational does.
\<close>

definition py_round :: "rat \<Rightarrow> int" where
  "py_round q = (let f = \<lfloor>q\<rfloor>; d = q - of_int f in
     if d < 1 / 2 then f else if 1 / 2 < d then f + 1 else if even f then f else f + 1)"

record scores =
  match :: int
  scan :: int
  hire :: int
  grade :: string

text \<open>\<open>letter_grade\<close> of HogueResMaster\_v11\_final\_fat.py.\<close>

definition letter_grade :: "int \<Rightarrow> string" where
  "letter_grade x =
     (if x \<ge> 97 then ''A+'' else if x \<ge> 93 then ''A'' else if x \<ge> 90 then ''A-''
      else if x \<ge> 87 then ''B+'' else if x \<ge> 83 then ''B'' else if x \<ge> 80 then ''B-''
      else if x \<ge> 77 then ''C+'' else if x \<ge> 73 then ''C'' else if x \<ge> 70 then ''C-''
      else if x \<ge> 60 then ''D'' else ''F'')"

text \<open>
  \<open>composite_scores\<close>.  \<open>ats_score\<close> counts regular-expression matches and combines
  the counts in binary floating point; the integer it returns is taken from the
  parameter of that name.  The version of HogueResMaster\_v11.py writes the grade
  chain in line and returns a dictionary, the one of HogueResMaster\_v11\_final\_fat.py
  calls \<open>letter_grade\<close> and returns a tuple.
\<close>

definition composite_scores_v11 :: "(string \<Rightarrow> int) \<Rightarrow> string \<Rightarrow> string \<Rightarrow> scores" where
  "composite_scores_v11 ats_score jd txt =
     (let jks = kw_set_v11 jd 400; tks = kw_set_v11 txt 400;
          cov = py_round (of_nat (100 * card (jks \<inter> tks)) / of_nat (max 1 (card jks)));
          ats = ats_score txt;
          hire = py_round (1 / 2 * of_int cov + 1 / 2 * of_int ats);
          grade = (if hire \<ge> 97 then ''A+'' else if hire \<ge> 93 then ''A''
            else if hire \<ge> 90 then ''A-'' else if hire \<ge> 87 then ''B+''
            else if hire \<ge> 83 then ''B'' else if hire \<ge> 80 then ''B-''
            else if hire \<ge> 77 then ''C+'' else if hire \<ge> 73 then ''C''
            else if hire \<ge> 70 then ''C-'' else if hire \<ge> 60 then ''D'' else ''F'')
      in \<lparr>match = cov, scan = ats, hire = hire, grade = grade\<rparr>)"

definition composite_scores :: "(string \<Rightarrow> int) \<Rightarrow> string \<Rightarrow> string \<Rightarrow> scores" where
  "composite_scores ats_score jd txt =
     (let jks = kw_set jd 400; tks = kw_set txt 400;
          cov = py_round (of_nat (100 * card (jks \<inter> tks)) / of_nat (max 1 (card jks)));
          ats = ats_score txt;
          hire = py_round (1 / 2 * of_int cov + 1 / 2 * of_int ats)
      in \<lparr>match = cov, scan = ats, hire = hire, grade = letter_grade hire\<rparr>)"

text \<open>
  The grade table as the specification words it: the first row whose inclusive lower
  bound the score reaches, and F below every bound.
\<close>

definition grade_table :: "(int \<times> string) list" where
  "grade_table = [(97, ''A+''), (93, ''A''), (90, ''A-''), (87, ''B+''), (83, ''B''),
     (80, ''B-''), (77, ''C+''), (73, ''C''), (70, ''C-''), (60, ''D'')]"

fun table_grade :: "(int \<times> string) list \<Rightarrow> int \<Rightarrow> string" where
  "table_grade [] h = ''F''"
| "table_grade ((b, g) # rows) h = (if b \<le> h then g else table_grade rows h)"

section \<open>Style signals and the federal helper\<close>

text \<open>
  The pattern \<open>\b\d{1,3}%\b\<close> at the head of a string, the first \<open>\b\<close> already
  established: one to three digits, the percent sign, and a word character after it
  (the percent sign is no word character, so the closing \<open>\b\<close> needs one).
\<close>

definition pct_at :: "string \<Rightarrow> bool" where
  "pct_at s = (let ds = takeWhile is_digit s in
     1 \<le> length ds \<and> length ds \<le> 3 \<and>
     (case dropWhile is_digit s of
        p # w # _ \<Rightarrow> p = CHR ''%'' \<and> is_word w
      | _ \<Rightarrow> False))"

text \<open>
  \<open>len(re.findall(r"\b\d{1,3}%\b", t))\<close>.  \<open>prev\<close> says whether the character before
  the position is a word character.  A match begins at a digit after a non-word
  character and covers digits and one percent sign, so no position inside a match
  begins another: counting the positions where the pattern matches counts the
  non-overlapping matches.
\<close>

fun count_pct :: "bool \<Rightarrow> string \<Rightarrow> nat" where
  "count_pct prev [] = 0"
| "count_pct prev (c # cs) =
     (if \<not> prev \<and> pct_at (c # cs) then 1 else 0) + count_pct (is_word c) cs"

text \<open>\<open>any(k in t for k in ks)\<close>.\<close>

definition any_in :: "string \<Rightarrow> string list \<Rightarrow> bool" where
  "any_in t ks = list_ex (contains t) ks"

definition detect_signals :: "string \<Rightarrow> string \<Rightarrow> string set" where
  "detect_signals resume_txt jd_txt =
     (let t = lower (resume_txt @ '' '' @ jd_txt) in
        (if any_in t [''usajobs'', '' gs-'', ''specialized experience''] then {''federal''} else {})
      \<union> (if any_in t [''rn'', ''emt'', ''hipaa'', ''epic'', ''cerner'', ''clinic'', ''ehr'', ''emr'']
          then {''healthcare''} else {})
      \<union> (if any_in t [''curriculum vitae'', ''publication'', ''postdoc'', ''grant'']
          then {''academic''} else {})
      \<union> (if any_in t [''vp '', ''vice president'', ''director '', ''p&l'', ''profit and loss'',
             ''org of'', ''grew '', ''growth ''] then {''executive''} else {})
      \<union> (if any_in t [''python'', ''sql'', ''aws'', ''git'', ''ci/cd'', ''docker'', ''kubernetes'',
             ''microservice''] then {''technical''} else {})
      \<union> (if 3 \<le> count_pct False t then {''metric_heavy''} else {}))"

text \<open>
  The pattern \<open>11:\s*59\s*p\.?m\.?\s*eastern\<close> at the head of a string.  Every
  \<open>\s*\<close> and \<open>\.?\<close> is followed by a literal it cannot match itself, so the greedy
  reading is the only one.
\<close>

definition lit :: "string \<Rightarrow> string \<Rightarrow> string option" where
  "lit p s = (if prefix p s then Some (drop (length p) s) else None)"

definition opt_dot :: "string \<Rightarrow> string" where
  "opt_dot s = (case s of c # cs \<Rightarrow> if c = CHR ''.'' then cs else s | [] \<Rightarrow> s)"

definition closing_at :: "string \<Rightarrow> bool" where
  "closing_at s =
     (case lit ''11:'' s of
        None \<Rightarrow> False
      | Some s1 \<Rightarrow>
          (case lit ''59'' (dropWhile isspace s1) of
             None \<Rightarrow> False
           | Some s2 \<Rightarrow>
               (case lit ''p'' (dropWhile isspace s2) of
                  None \<Rightarrow> False
                | Some s3 \<Rightarrow>
                    (case lit ''m'' (opt_dot s3) of
                       None \<Rightarrow> False
                     | Some s4 \<Rightarrow> prefix ''eastern'' (dropWhile isspace (opt_dot s4))))))"

text \<open>\<open>re.search\<close>: the pattern matches at some position of the text.\<close>

fun search :: "(string \<Rightarrow> bool) \<Rightarrow> string \<Rightarrow> bool" where
  "search m [] = m []"
| "search m (c # cs) = (m (c # cs) \<or> search m cs)"

definition detect_closing_et :: "string \<Rightarrow> string" where
  "detect_closing_et jd_text =
     (if search closing_at (lower jd_text)
      then ''Submit by 11:59 p.m. Eastern Time on the closing date.'' else [])"

section \<open>Feature flags\<close>

text \<open>
  The dictionary \<open>V11\<close> of HogueResMaster\_v11.py.  No function of the file assigns to
  it; the functions that read it take the record as their first argument.
\<close>

record flags =
  demo_mode :: bool
  ocr_enabled :: bool
  link_check :: bool
  zip_layout_mobile :: bool
  ab_bullet_variant :: bool
  dedup_tighten :: bool
  federal_gate :: bool
  evidence_only :: bool
  style_memory :: bool
  safe_share_default :: bool
  idempotent_runs :: bool

definition V11 :: flags where
  "V11 = \<lparr>demo_mode = False, ocr_enabled = True, link_check = True, zip_layout_mobile = True,
     ab_bullet_variant = True, dedup_tighten = True, federal_gate = True, evidence_only = True,
     style_memory = True, safe_share_default = True, idempotent_runs = True\<rparr>"

section \<open>The evidence guard of the cover letter\<close>

definition newline :: string where
  "newline = [CHR 0x0A]"

text \<open>
  \<open>str.splitlines()\<close>: a line ends at a line feed, a carriage return (with the line
  feed after it, if any), a vertical tab, a form feed, a file, group or record
  separator, or a next-line character; the text after the last boundary is a line
  only when it is not empty.  \<open>cur\<close> is the line being read.
\<close>

definition is_linebreak :: "char \<Rightarrow> bool" where
  "is_linebreak c = (let n = code c in (10 \<le> n \<and> n \<le> 13) \<or> (28 \<le> n \<and> n \<le> 30) \<or> n = 133)"

fun splitlines_from :: "string \<Rightarrow> string \<Rightarrow> string list" where
  "splitlines_from cur [] = (if cur = [] then [] else [cur])"
| "splitlines_from cur [c] = (if is_linebreak c then [cur] else [cur @ [c]])"
| "splitlines_from cur (c # d # cs) =
     (if c = CHR 0x0D \<and> d = CHR 0x0A then cur # splitlines_from [] cs
      else if is_linebreak c then cur # splitlines_from [] (d # cs)
      else splitlines_from (cur @ [c]) (d # cs))"

definition splitlines :: "string \<Rightarrow> string list" where
  "splitlines s = splitlines_from [] s"

text \<open>
  The loop of \<open>evidence_guard\<close>.  Its two branches are written out as the source has
  them: both append the line.
\<close>

fun guard_loop :: "string \<Rightarrow> string list \<Rightarrow> string list \<Rightarrow> string list" where
  "guard_loop basis [] kept = kept"
| "guard_loop basis (l # ls) kept =
     (let words = runs is_lower_alpha 4 [] (lower l) in
      if words = [] \<or> \<not> list_ex (contains basis) words
      then guard_loop basis ls (kept @ [l])
      else guard_loop basis ls (kept @ [l]))"

definition evidence_guard :: "flags \<Rightarrow> string \<Rightarrow> string \<Rightarrow> string \<Rightarrow> string" where
  "evidence_guard fl cover_text resume_text jd_text =
     (if \<not> evidence_only fl then cover_text
      else let basis = lower (resume_text @ newline @ jd_text);
               lines = filter (\<lambda>l. strip l \<noteq> []) (splitlines cover_text)
           in join newline (guard_loop basis lines []))"

section \<open>Bullets: de-duplicate and tighten\<close>

text \<open>
  \<open>re.sub(r"\s+", " ", s)\<close>: every maximal run of white space becomes one space.
  \<open>in_ws\<close> says whether the character before belongs to such a run.
\<close>

fun collapse_ws :: "bool \<Rightarrow> string \<Rightarrow> string" where
  "collapse_ws in_ws [] = []"
| "collapse_ws in_ws (c # cs) =
     (if isspace c then (if in_ws then collapse_ws True cs else CHR '' '' # collapse_ws True cs)
      else c # collapse_ws False cs)"

text \<open>
  The loop of \<open>tighten_bullets\<close>: the key is taken from the whole cleaned line, the
  line is cut to 180 characters when it is appended, and the cap is tested after the
  append.
\<close>

fun tighten_loop :: "string list \<Rightarrow> int \<Rightarrow> string set \<Rightarrow> string list \<Rightarrow> string list" where
  "tighten_loop [] max_per_role seen cleaned = cleaned"
| "tighten_loop (b # bs) max_per_role seen cleaned =
     (let t = collapse_ws False (strip b) in
      if t = [] then tighten_loop bs max_per_role seen cleaned
      else let key = lower t in
        if key \<in> seen then tighten_loop bs max_per_role seen cleaned
        else let cleaned' = cleaned @ [take 180 t] in
          if int (length cleaned') \<ge> max_per_role then cleaned'
          else tighten_loop bs max_per_role (insert key seen) cleaned')"

definition tighten_bullets :: "flags \<Rightarrow> string list \<Rightarrow> int \<Rightarrow> string list" where
  "tighten_bullets fl bullets max_per_role =
     (if \<not> dedup_tighten fl then bullets else tighten_loop bullets max_per_role {} [])"

section \<open>The content payload and its enrichment\<close>

text \<open>
  The payload is a dictionary read with \<open>.get\<close> and a default throughout; an absent
  key is the field at that default (the empty string, the empty list).
\<close>

record role =
  title :: string
  company :: string
  dates :: string
  bullets :: "string list"

record payload =
  name :: string
  summary :: string
  core_items :: "string list"
  experience :: "role list"
  licenses_certs :: "string list"
  education :: string

definition em_dash :: string where
  "em_dash = [CHR 0xE2, CHR 0x80, CHR 0x94]"

definition bullet_mark :: string where
  "bullet_mark = [CHR 0xE2, CHR 0x80, CHR 0xA2]"

definition role_lines :: "role \<Rightarrow> string list" where
  "role_lines j = (title j @ '' @ '' @ company j @ '' '' @ em_dash @ '' '' @ dates j)
     # map (\<lambda>b. bullet_mark @ '' '' @ b) (bullets j)"

text \<open>\<open>payload_to_text\<close> of HogueResMaster\_v11\_final\_fat.py.\<close>

definition payload_to_text :: "payload \<Rightarrow> string" where
  "payload_to_text p = join newline
     ([summary p, ''Core: '' @ join '', '' (core_items p)]
      @ concat (map role_lines (experience p))
      @ (if education p \<noteq> [] then [''Education: '' @ education p] else []))"

text \<open>
  \<open>payload_to_text\<close> of HogueResMaster\_v9\_2\_2.py: it has the line of licences, and
  its separator is the string literal \<open>"\\n"\<close>, a backslash and the letter n.
\<close>

definition payload_to_text_v9 :: "payload \<Rightarrow> string" where
  "payload_to_text_v9 p = join [CHR 0x5C, CHR ''n'']
     ([summary p, ''Core: '' @ join '', '' (core_items p)]
      @ concat (map role_lines (experience p))
      @ (if licenses_certs p \<noteq> [] then [''Licenses/Certs: '' @ join '', '' (licenses_certs p)] else [])
      @ (if education p \<noteq> [] then [''Education: '' @ education p] else []))"

text \<open>
  \<open>str.title()\<close> on the strings it is applied to here, the tokens of \<open>kw_set\<close>,
  which are ASCII letters: a letter after a letter is lowered, any other letter is
  raised.  \<open>prev\<close> says whether the character before is a letter.
\<close>

definition upper_char :: "char \<Rightarrow> char" where
  "upper_char c = (let n = code c in if 97 \<le> n \<and> n \<le> 122 then char_of (n - 32) else c)"

fun title_from :: "bool \<Rightarrow> string \<Rightarrow> string" where
  "title_from prev [] = []"
| "title_from prev (c # cs) =
     (if is_alpha c then (if prev then lower_char c else upper_char c) # title_from True cs
      else c # title_from False cs)"

definition title_case :: "string \<Rightarrow> string" where
  "title_case s = title_from False s"

definition noise :: "string set" where
  "noise = set [''and'', ''with'', ''from'', ''will'', ''work'', ''role'', ''team'', ''customer'',
     ''customers'', ''clients'', ''provide'', ''years'', ''experience'', ''requirements'',
     ''must'', ''have'']"

text \<open>
  The loop over \<open>list(missing)[:core_cap]\<close>: \<open>core\<close> is the list of skills, which
  grows as the loop runs.
\<close>

fun core_loop :: "string list \<Rightarrow> string list \<Rightarrow> string list" where
  "core_loop [] core = core"
| "core_loop (t # ts) core =
     (if title_case t \<notin> set core then core_loop ts (core @ [title_case t]) else core_loop ts core)"

text \<open>
  \<open>inject_keywords\<close> from the line \<open>if not missing: return payload\<close> on, the same text
  in HogueResMaster\_v9\_2\_2.py and HogueResMaster\_v11\_final\_fat.py.  A cap is tested
  for truth, so any cap but 0 opens its section.
\<close>

definition inject_missing :: "string list \<Rightarrow> payload \<Rightarrow> int \<times> int \<times> int \<Rightarrow> payload" where
  "inject_missing missing p per_section_caps =
     (if missing = [] then p
      else case per_section_caps of (sum_cap, core_cap, bullet_cap) \<Rightarrow>
        let (p1, m1) =
              (if sum_cap \<noteq> 0 \<and> missing \<noteq> [] then
                 (p\<lparr>summary := strip (summary p @ (if summary p \<noteq> [] then '' '' else [])
                      @ ''Focus: '' @ join '', '' (py_take sum_cap missing) @ ''.'')\<rparr>,
                  py_drop sum_cap missing)
               else (p, missing));
            (p2, m2) =
              (if core_cap \<noteq> 0 \<and> m1 \<noteq> [] then
                 (p1\<lparr>core_items := core_loop (py_take core_cap m1) (core_items p1)\<rparr>,
                  py_drop core_cap m1)
               else (p1, m1))
        in (if bullet_cap \<noteq> 0 \<and> m2 \<noteq> [] \<and> experience p2 \<noteq> [] then
              (case experience p2 of
                 [] \<Rightarrow> p2
               | r # rs \<Rightarrow>
                   p2\<lparr>experience :=
                     r\<lparr>bullets := (''Advanced '' @ join '', '' (py_take bullet_cap m2)
                          @ '' initiatives aligned to role requirements.'') # bullets r\<rparr> # rs\<rparr>)
            else p2))"

text \<open>
  \<open>inject_keywords\<close>.  \<open>list(...)\<close> of a set of strings enumerates it in an order the
  language leaves open (it varies from one run to the next); the enumeration is the
  parameter \<open>enum\<close>.  The two versions differ by the \<open>payload_to_text\<close> they call.
\<close>

definition inject_keywords ::
    "(string set \<Rightarrow> string list) \<Rightarrow> payload \<Rightarrow> string \<Rightarrow> int \<times> int \<times> int \<Rightarrow> payload" where
  "inject_keywords enum p jd_text per_section_caps =
     (let missing = enum (kw_set jd_text 400 - kw_set (payload_to_text p) 400);
          missing = take 6 (filter (\<lambda>m. m \<notin> noise) missing)
      in inject_missing missing p per_section_caps)"

definition inject_keywords_v9 ::
    "(string set \<Rightarrow> string list) \<Rightarrow> payload \<Rightarrow> string \<Rightarrow> int \<times> int \<times> int \<Rightarrow> payload" where
  "inject_keywords_v9 enum p jd_text per_section_caps =
     (let missing = enum (kw_set jd_text 400 - kw_set (payload_to_text_v9 p) 400);
          missing = take 6 (filter (\<lambda>m. m \<notin> noise) missing)
      in inject_missing missing p per_section_caps)"

definition metric_placeholder :: string where
  "metric_placeholder =
     ''Improved adoption by [CONFIRM]% and renewal rate by [CONFIRM]% across assigned accounts.''"

text \<open>
  \<open>ensure_metric_shell\<close> of HogueResMaster\_v11\_final\_fat.py: the pattern is
  \<open>r"\d"\<close>, a digit.
\<close>

definition ensure_metric_shell :: "payload \<Rightarrow> payload" where
  "ensure_metric_shell p =
     (case experience p of
        [] \<Rightarrow> p
      | r # rs \<Rightarrow>
          if \<not> list_ex (\<lambda>x. search (\<lambda>s. case s of [] \<Rightarrow> False | c # _ \<Rightarrow> is_digit c) x) (bullets r)
          then p\<lparr>experience := r\<lparr>bullets := metric_placeholder # bullets r\<rparr> # rs\<rparr>
          else p)"

text \<open>
  \<open>inject_metric_shell\<close> of HogueResMaster\_v9\_2\_2.py: the pattern is \<open>r"\\d"\<close>,
  which in a raw string is an escaped backslash and the letter d.
\<close>

definition inject_metric_shell :: "payload \<Rightarrow> payload" where
  "inject_metric_shell p =
     (case experience p of
        [] \<Rightarrow> p
      | r # rs \<Rightarrow>
          if \<not> list_ex (\<lambda>x. search (prefix [CHR 0x5C, CHR ''d'']) x) (bullets r)
          then p\<lparr>experience := r\<lparr>bullets := metric_placeholder # bullets r\<rparr> # rs\<rparr>
          else p)"

section \<open>The build signature\<close>

text \<open>
  The values \<open>json.dumps\<close> is given: strings, lists and dictionaries with string
  keys.  A dictionary is the list of its items in insertion order, its keys distinct.
\<close>

datatype json = JStr string | JArr "json list" | JObj "(string \<times> json) list"

definition hex_digit :: "nat \<Rightarrow> char" where
  "hex_digit n = ''0123456789abcdef'' ! (n mod 16)"

text \<open>
  The encoder with \<open>ensure_ascii\<close>: the quote and the backslash get a backslash, five
  control characters their letter, and every other character outside the range from
  the space to the tilde the form \<open>\u00xx\<close>.
\<close>

definition escape_char :: "char \<Rightarrow> string" where
  "escape_char c = (let n = code c; bs = CHR 0x5C in
     if n = 34 then [bs, CHR 0x22]
     else if n = 92 then [bs, bs]
     else if n = 10 then [bs, CHR ''n'']
     else if n = 13 then [bs, CHR ''r'']
     else if n = 9 then [bs, CHR ''t'']
     else if n = 8 then [bs, CHR ''b'']
     else if n = 12 then [bs, CHR ''f'']
     else if n < 32 \<or> 126 < n then [bs, CHR ''u'', CHR ''0'', CHR ''0'', hex_digit (n div 16), hex_digit n]
     else [c])"

definition quote :: "string \<Rightarrow> string" where
  "quote s = [CHR 0x22] @ concat (map escape_char s) @ [CHR 0x22]"

text \<open>
  \<open>json.dumps(v, sort_keys=True)\<close> with the default separators.  The items of a
  dictionary are sorted; their keys are distinct, so the keys decide the order.
\<close>

fun dumps :: "json \<Rightarrow> string" where
  "dumps (JStr s) = quote s"
| "dumps (JArr xs) = ''['' @ join '', '' (map dumps xs) @ '']''"
| "dumps (JObj kvs) =
     ''{'' @ join '', '' (map (\<lambda>(k, v). quote k @ '': '' @ v)
                          (sort_key fst (map (\<lambda>(k, v). (k, dumps v)) kvs))) @ ''}''"

text \<open>
  \<open>build_signature\<close>.  \<open>sha256\<close> stands for
  \<open>hashlib.sha256(blob).hexdigest()\<close>; the blob is ASCII, so its UTF-8 encoding is the
  blob itself.
\<close>

definition build_signature ::
    "(string \<Rightarrow> string) \<Rightarrow> string \<Rightarrow> string \<Rightarrow> (string \<times> json) list \<Rightarrow> (string \<times> json) list \<Rightarrow> string" where
  "build_signature sha256 resume_text jd_text person selection =
     sha256 (dumps (JObj [(''resume'', JStr resume_text), (''jd'', JStr jd_text),
                          (''person'', JObj person), (''selection'', JObj selection)]))"

section \<open>The orchestrator\<close>

text \<open>
  What a run does to the world outside it, in the order it does it: the output
  directory made (\<open>outdir.mkdir\<close>), the session memory rewritten with a new
  \<open>last_selection\<close> (\<open>remember_style\<close>), a line printed, the effects of
  \<open>generate_for_style\<close> (files written, links probed), the bundle written
  (\<open>zip_with_folders\<close> with its buckets, or the flat archive), and the marker of a
  finished build written (\<open>mark_built\<close>).
\<close>

datatype 'r effect =
    Mkdir string
  | SaveMemory json
  | Print string
  | Render 'r
  | ZipFolders string "(string \<times> string list) list"
  | ZipFlat string "string list"
  | MarkBuilt string

datatype error = KeyError string | IndexError | Raised string

text \<open>\<open>already_built\<close>: the cache is the set of signatures that have a marker file.\<close>

definition already_built :: "string set \<Rightarrow> string \<Rightarrow> bool" where
  "already_built cache sig = (sig \<in> cache)"

definition remember_style :: "flags \<Rightarrow> json \<Rightarrow> 'r effect list" where
  "remember_style fl selection = (if \<not> style_memory fl then [] else [SaveMemory selection])"

text \<open>
  \<open>safe_name\<close>: runs of characters other than ASCII letters and digits become one
  underscore, the underscores at both ends go, and at most 64 characters stay.
\<close>

definition is_alnum :: "char \<Rightarrow> bool" where
  "is_alnum c = (is_alpha c \<or> is_digit c)"

fun squeeze :: "bool \<Rightarrow> string \<Rightarrow> string" where
  "squeeze in_run [] = []"
| "squeeze in_run (c # cs) =
     (if \<not> is_alnum c then (if in_run then squeeze True cs else CHR ''_'' # squeeze True cs)
      else c # squeeze False cs)"

definition safe_name :: "string \<Rightarrow> string" where
  "safe_name s =
     (let u = (\<lambda>c. c = CHR ''_'');
          s' = rev (dropWhile u (rev (dropWhile u (squeeze False s))))
      in if take 64 s' = [] then ''NA'' else take 64 s')"

definition style_disp :: "string \<Rightarrow> string" where
  "style_disp style =
     (case map_of [(''classic'', ''Classic''), (''hybrid'', ''Hybrid''), (''tech_ic'', ''Technical''),
                   (''executive'', ''Executive''), (''healthcare'', ''Healthcare''),
                   (''federal'', ''Federal''), (''academic_cv'', ''AcademicCV'')] style of
        None \<Rightarrow> ''Classic'' | Some d \<Rightarrow> d)"

definition base_name :: "string \<Rightarrow> string \<Rightarrow> string \<Rightarrow> string \<Rightarrow> string \<Rightarrow> string \<Rightarrow> string" where
  "base_name first' last' company' title' style date_str =
     safe_name first' @ ''_'' @ safe_name last' @ ''_'' @ safe_name company' @ ''_''
     @ safe_name title' @ ''_'' @ style_disp style @ ''_'' @ date_str"

text \<open>
  The call \<open>base_name(person['first'], person['last'], company, title, styles[0], TODAY)\<close>
  at the end of \<open>run_auto\<close>, its arguments evaluated from left to right.
\<close>

definition final_base ::
    "(string \<times> string) list \<Rightarrow> string \<Rightarrow> string \<Rightarrow> string list \<Rightarrow> string \<Rightarrow> error + string" where
  "final_base person company' title' styles today =
     (case map_of person ''first'' of
        None \<Rightarrow> Inl (KeyError ''first'')
      | Some f \<Rightarrow>
          (case map_of person ''last'' of
             None \<Rightarrow> Inl (KeyError ''last'')
           | Some l \<Rightarrow>
               (case styles of
                  [] \<Rightarrow> Inl IndexError
                | s # _ \<Rightarrow> Inr (base_name f l company' title' s today))))"

text \<open>\<open>Path.name\<close> and the bucket a file name falls in, the tests in the source's order.\<close>

definition path_name :: "string \<Rightarrow> string" where
  "path_name f = rev (takeWhile (\<lambda>c. c \<noteq> CHR ''/'') (rev f))"

definition bucket_of :: "string \<Rightarrow> string option" where
  "bucket_of nm =
     (if contains nm ''_RESUME'' \<and> \<not> contains nm ''VARIANT'' then Some ''Resume''
      else if contains nm ''VARIANT_B'' then Some ''Resume''
      else if contains nm ''_COVER'' \<or> contains nm ''_COMBINED'' then Some ''Cover''
      else if contains nm ''INTERVIEW_GUIDE'' then Some ''Guides''
      else if contains nm ''RUN_REPORT'' \<or> contains nm ''REDLINE'' then Some ''Reports''
      else if contains nm ''USAJOBS_CHECKLIST'' then Some ''Federal''
      else None)"

definition buckets :: "string list \<Rightarrow> (string \<times> string list) list" where
  "buckets all_files =
     map (\<lambda>b. (b, filter (\<lambda>f. bucket_of (path_name f) = Some b) all_files))
       [''Resume'', ''Cover'', ''Guides'', ''Reports'', ''Federal'']"

text \<open>
  The loop \<open>for s in styles: all_files += generate_for_style(...)\<close>.  \<open>gen\<close> stands
  for \<open>generate_for_style\<close> at the arguments the run fixes (directory, person,
  company, title, the two texts, the payload): from the state it shares between
  calls (the acronyms \<open>ToneKit\<close> has expanded) and a style key it gives the new
  state, its effects, and the files it returns or the exception it raises.  An
  exception ends the run; the effects before it stay.
\<close>

fun style_loop ::
    "('s \<Rightarrow> string \<Rightarrow> 's \<times> 'r list \<times> (error + string list)) \<Rightarrow> 's \<Rightarrow> string list
      \<Rightarrow> 'r list \<times> (error + string list)" where
  "style_loop gen st [] = ([], Inr [])"
| "style_loop gen st (s # ss) =
     (case gen st s of
        (st', ef, Inl e) \<Rightarrow> (ef, Inl e)
      | (st', ef, Inr files) \<Rightarrow>
          (case style_loop gen st' ss of
             (ef', Inl e) \<Rightarrow> (ef @ ef', Inl e)
           | (ef', Inr rest) \<Rightarrow> (ef @ ef', Inr (files @ rest))))"

definition skip_message :: string where
  "skip_message = ''Already up-to-date '' @ em_dash @ '' skipping rebuild.''"

definition selection_of :: "string list \<Rightarrow> (string \<times> json) list" where
  "selection_of styles =
     [(''styles'', JArr (map JStr styles)), (''length'', JStr ''auto''),
      (''options'', JArr [JStr ''combined'', JStr ''zip''])]"

text \<open>
  \<open>run_auto\<close>: the effects of the run in order, and the list it returns or the
  exception that ends it.  \<open>cache\<close> is the cache directory as the run finds it.
\<close>

definition run_auto ::
    "flags \<Rightarrow> (string \<Rightarrow> string) \<Rightarrow> ('s \<Rightarrow> string \<Rightarrow> 's \<times> 'r list \<times> (error + string list)) \<Rightarrow> 's
      \<Rightarrow> string set \<Rightarrow> string \<Rightarrow> string \<Rightarrow> (string \<times> string) list \<Rightarrow> string \<Rightarrow> string
      \<Rightarrow> string \<Rightarrow> string \<Rightarrow> string list \<Rightarrow> 'r effect list \<times> (error + string list)" where
  "run_auto fl sha256 gen st cache today outdir person company' title' resume_text jd_text styles =
     (let selection = selection_of styles;
          before = [Mkdir outdir] @ remember_style fl (JObj selection);
          sig = (if idempotent_runs fl
                 then build_signature sha256 resume_text jd_text
                        (map (\<lambda>(k, v). (k, JStr v)) person) selection
                 else [])
      in if sig \<noteq> [] \<and> already_built cache sig then (before @ [Print skip_message], Inr [])
         else case style_loop gen st styles of
             (ef, Inl e) \<Rightarrow> (before @ map Render ef, Inl e)
           | (ef, Inr all_files) \<Rightarrow>
               (case final_base person company' title' styles today of
                  Inl e \<Rightarrow> (before @ map Render ef, Inl e)
                | Inr base \<Rightarrow>
                    let zip_path = outdir @ ''/'' @ base @ ''_DELIVERABLES.zip'';
                        bundle = (if zip_layout_mobile fl then ZipFolders zip_path (buckets all_files)
                               else ZipFlat zip_path all_files);
                        mark = (if idempotent_runs fl \<and> sig \<noteq> [] then [MarkBuilt sig] else [])
                    in (before @ map Render ef @ [bundle] @ mark, Inr (all_files @ [zip_path]))))"

section \<open>The generator of HogueResMaster\_v11.py as it is written\<close>

text \<open>
  The payload \<open>run_auto\<close> builds, a dictionary of seven keys; the roles are the
  dictionaries of the record \<open>role\<close>.  The en dash of its date ranges is written as
  its three UTF-8 bytes.
\<close>

record payload_v11 =
  title_v11 :: string
  contact_v11 :: string
  summary_v11 :: string
  skills_v11 :: "string list"
  experience_v11 :: "role list"
  licenses_v11 :: "string list"
  education_v11 :: string

definition en_dash :: string where
  "en_dash = [CHR 0xE2, CHR 0x80, CHR 0x93]"

definition run_payload :: "flags \<Rightarrow> string \<Rightarrow> payload_v11" where
  "run_payload fl title' =
     (if demo_mode fl then
        \<lparr>title_v11 = title',
         contact_v11 = ''jane.doe@email.com | [phone hidden] | Denver, CO'',
         summary_v11 = ''Hands-on contributor with measurable outcomes; single-column, Applicant Tracking System (ATS)-safe.'',
         skills_v11 = [''Hydraulics'', ''Blueprints'', ''Safety Compliance'', ''Diagnostics''],
         experience_v11 =
           [\<lparr>title = ''Lead Technician'', company = ''RiverWorks'',
              dates = ''2020'' @ en_dash @ ''Present'',
              bullets = [''Reduced downtime 22% via preventive schedule'',
                         ''Trained 4 apprentices; safety incidents 0 in 2 yrs'',
                         ''Cut parts spend 12% by vendor consolidation'']\<rparr>,
            \<lparr>title = ''Technician'', company = ''FlowPro'', dates = ''2016'' @ en_dash @ ''2020'',
              bullets = [''Completed ~180 service orders/yr'',
                         ''Maintained 98% inspection pass rate'']\<rparr>],
         licenses_v11 = [''OSHA 30'', ''EPA 608''],
         education_v11 = ''A.A.S., Industrial Tech''\<rparr>
      else
        \<lparr>title_v11 = title',
         contact_v11 = ''email | phone | city, state'',
         summary_v11 = ''Professional contributor with measurable outcomes; clear, Applicant Tracking System (ATS)-safe structure.'',
         skills_v11 = [''Stakeholder Management'', ''Customer Success'', ''Process Improvement'',
                       ''Data-Driven Decisions''],
         experience_v11 =
           [\<lparr>title = ''Most Recent Title'', company = ''Most Recent Company'',
              dates = ''2019'' @ en_dash @ ''Present'',
              bullets = [''Led adoption program across 25 accounts; improved renewal rate by 14%.'',
                         ''Partnered cross-functionally to reduce churn and drive expansion.'']\<rparr>],
         licenses_v11 = [],
         education_v11 = ''B.A., University Name''\<rparr>)"

text \<open>
  \<open>write_docx_simple\<close> called on a path \<open>stem.docx\<close>: the file it writes, which is
  that path when the module \<open>docx\<close> could be imported (\<open>DOCX_OK\<close>) and the same
  path with the suffix \<open>.rtf\<close> otherwise.  Only the path is kept, not the bytes.
\<close>

definition write_docx_simple :: "bool \<Rightarrow> string \<Rightarrow> string" where
  "write_docx_simple docx_ok stem = stem @ (if docx_ok then ''.docx'' else ''.rtf'')"

text \<open>
  \<open>make_cover_letter\<close>: what every call ends with.  Its statements before the last
  compute strings (\<open>re.findall\<close>, \<open>dict.get\<close> with a default, formatted strings,
  \<open>re.sub\<close>, \<open>split\<close> and \<open>join\<close>) and raise nothing; the last one,
  \<open>return tone.expand_once(evidence_guard(body, resume_txt, jd_txt))\<close>, first looks up
  \<open>expand_once\<close> on \<open>tone\<close>, which inside the function is its own parameter, a
  string (the module's \<open>ToneKit\<close> object of the same name is hidden by it), and a
  string has no such attribute.  The function returns no value, so its result is the
  exception.
\<close>

definition make_cover_letter ::
    "string \<Rightarrow> string \<Rightarrow> (string \<times> string) list \<Rightarrow> string \<Rightarrow> string \<Rightarrow> string \<Rightarrow> error" where
  "make_cover_letter resume_txt jd_txt person company' title' tone = Raised ''AttributeError''"

text \<open>
  \<open>generate_for_style\<close> up to its call of \<open>make_cover_letter\<close>, which ends it: the
  paths of the files written so far (the resume, and its variant B when the flag is on
  and the first role of the payload has bullets), and the exception.  The statements
  after the call are never reached.
\<close>

definition generate_for_style ::
    "flags \<Rightarrow> bool \<Rightarrow> string \<Rightarrow> string \<Rightarrow> string \<Rightarrow> (string \<times> string) list \<Rightarrow> string \<Rightarrow> string
      \<Rightarrow> string \<Rightarrow> string \<Rightarrow> payload_v11 \<Rightarrow> string list \<times> (error + string list)" where
  "generate_for_style fl docx_ok today outdir style_key person company' title' resume_text jd_text pl =
     (case map_of person ''first'' of
        None \<Rightarrow> ([], Inl (KeyError ''first''))
      | Some f \<Rightarrow>
          (case map_of person ''last'' of
             None \<Rightarrow> ([], Inl (KeyError ''last''))
           | Some l \<Rightarrow>
               let base = base_name f l company' title' style_key today;
                   resume_written = write_docx_simple docx_ok (outdir @ ''/'' @ base @ ''_RESUME'');
                   variant_files =
                     (if ab_bullet_variant fl \<and> experience_v11 pl \<noteq> [] then
                        (case experience_v11 pl of
                           [] \<Rightarrow> []
                         | r # _ \<Rightarrow>
                             if bullets r \<noteq> []
                             then [write_docx_simple docx_ok
                                     (outdir @ ''/'' @ base @ ''_RESUME_VARIANT_B'')]
                             else [])
                      else [])
               in ([resume_written] @ variant_files,
                   Inl (make_cover_letter resume_text jd_text person company' title' ''warm''))))"

text \<open>
  \<open>run_auto\<close> of HogueResMaster\_v11.py with the generator it calls, on the payload it
  builds.  The acronyms \<open>ToneKit\<close> has expanded bear on the text of the files only, so
  the state shared between the calls is left empty.
\<close>

definition run_auto_v11 ::
    "flags \<Rightarrow> (string \<Rightarrow> string) \<Rightarrow> bool \<Rightarrow> string set \<Rightarrow> string \<Rightarrow> string
      \<Rightarrow> (string \<times> string) list \<Rightarrow> string \<Rightarrow> string \<Rightarrow> string \<Rightarrow> string \<Rightarrow> string list
      \<Rightarrow> string effect list \<times> (error + string list)" where
  "run_auto_v11 fl sha256 docx_ok cache today outdir person company' title' resume_text jd_text styles =
     run_auto fl sha256
       (\<lambda>(st :: unit) s.
          (st, generate_for_style fl docx_ok today outdir s person company' title' resume_text jd_text
                 (run_payload fl title')))
       () cache today outdir person company' title' resume_text jd_text styles"

text \<open>
  The cache directory after a run: \<open>mark_built\<close> adds the marker of its signature.
\<close>

definition cache_after :: "string set \<Rightarrow> 'r effect list \<Rightarrow> string set" where
  "cache_after cache effs =
     cache \<union> set (concat (map (\<lambda>e. case e of MarkBuilt s \<Rightarrow> [s] | _ \<Rightarrow> []) effs))"

section \<open>Auxiliary notions and sample inputs\<close>

text \<open>
  The cleaned line of \<open>tighten_bullets\<close>, \<open>re.sub(r"\s+", " ", b.strip())\<close>, and
  the strings that neither begin nor end with white space.
\<close>

definition clean_line :: "string \<Rightarrow> string" where
  "clean_line b = collapse_ws False (strip b)"

definition trimmed :: "string \<Rightarrow> bool" where
  "trimmed s = (s = [] \<or> (\<not> isspace (hd s) \<and> \<not> isspace (last s)))"

text \<open>The job text and the candidate text of the end-to-end scenario of the specification.\<close>

definition scenario_jd :: string where
  "scenario_jd = ''Responsibilities: lead adoption programs, own renewal targets, report on revenue growth, 40 hours/week, closes 11:59 p.m. Eastern''"

definition scenario_cv :: string where
  "scenario_cv = ''Led adoption +14%. Built playbook; reduced churn 10%.''"

text \<open>A cover letter of three lines, the second one blank.\<close>

definition sample_cover :: string where
  "sample_cover = ''Dear team,'' @ newline @ ''   '' @ newline @ ''I built tools.''"

text \<open>A payload whose only bullet has digits.\<close>

definition digits_payload :: payload where
  "digits_payload = \<lparr>name = ''Candidate'', summary = ''Summary.'', core_items = [],
     experience = [\<lparr>title = ''Lead'', company = ''Co'', dates = ''2020'',
                    bullets = [''Grew renewals 14%'']\<rparr>],
     licenses_certs = [], education = []\<rparr>"

text \<open>Two bullets that differ only after their 180th character.\<close>

definition long_bullets :: "string list" where
  "long_bullets = [replicate 180 (CHR ''a'') @ ''b'', replicate 180 (CHR ''a'') @ ''c'']"

text \<open>A payload and a job text for keyword injection.\<close>

definition sample_payload :: payload where
  "sample_payload = \<lparr>name = ''Candidate'', summary = ''Summary.'', core_items = [''Python'', ''Sql''],
     experience = [\<lparr>title = ''Lead'', company = ''Co'', dates = ''2020'',
                    bullets = [''Led adoption program.'']\<rparr>],
     licenses_certs = [], education = []\<rparr>"

definition sample_jd :: string where
  "sample_jd = ''We need kubernetes, docker, terraform, golang, python and aws, azure, gcp''"

text \<open>The effects that write a marker of a finished build.\<close>

definition is_mark :: "'r effect \<Rightarrow> bool" where
  "is_mark e = (case e of MarkBuilt _ \<Rightarrow> True | _ \<Rightarrow> False)"

text \<open>
  A person, a generator that writes one file and returns it, and one that writes a
  file and then raises.
\<close>

definition sample_person :: "(string \<times> string) list" where
  "sample_person = [(''first'', ''Ada''), (''last'', ''Lovelace'')]"

definition sample_gen :: "unit \<Rightarrow> string \<Rightarrow> unit \<times> string list \<times> (error + string list)" where
  "sample_gen st s = (st, [''out/'' @ s @ ''_RESUME.docx''], Inr [''out/'' @ s @ ''_RESUME.docx''])"

definition failing_gen :: "unit \<Rightarrow> string \<Rightarrow> unit \<times> string list \<times> (error + string list)" where
  "failing_gen st s = (st, [''out/'' @ s @ ''_RESUME.docx''], Inl (Raised ''AttributeError''))"

section \<open>Properties of the scores\<close>

lemma py_round_nearest: "\<bar>of_int (py_round q) - q\<bar> \<le> 1 / 2"
proof -
  define f where "f = \<lfloor>q\<rfloor>"
  have b: "of_int f \<le> q" "q < of_int f + 1" unfolding f_def by linarith+
  have "py_round q = f \<and> q - of_int f \<le> 1 / 2 \<or> py_round q = f + 1 \<and> 1 / 2 \<le> q - of_int f"
    unfolding py_round_def Let_def f_def[symmetric] by auto
  then show ?thesis using b by (auto simp: abs_if)
qed

lemma py_round_of_int: "py_round (of_int n) = n"
  by (simp add: py_round_def)

lemma letter_grade_table: "letter_grade h = table_grade grade_table h"
  by (simp add: letter_grade_def grade_table_def)

lemma py_round_half_sum:
  "py_round (1 / 2 * of_int a + 1 / 2 * of_int b) =
     (if even (a + b) then (a + b) div 2
      else if even ((a + b) div 2) then (a + b) div 2 else (a + b) div 2 + 1)"
proof -
  have eq: "(1 / 2 * of_int a + 1 / 2 * of_int b :: rat) = of_int (a + b) / 2" by simp
  show ?thesis
  proof (cases "even (a + b)")
    case True
    then obtain k where k: "a + b = 2 * k" by (rule evenE)
    have "(of_int (a + b) / 2 :: rat) = of_int k" by (simp add: k)
    then have "py_round (of_int (a + b) / 2) = k" by (simp only: py_round_of_int)
    then show ?thesis unfolding eq using True k by simp
  next
    case False
    then obtain k where k: "a + b = 2 * k + 1" by (rule oddE)
    have q: "(of_int (a + b) / 2 :: rat) = of_int k + 1 / 2" by (simp add: k)
    have fl: "\<lfloor>of_int k + 1 / 2 :: rat\<rfloor> = k" by linarith
    have dv: "(a + b) div 2 = k" using k by simp
    have "py_round (of_int k + 1 / 2) = (if even k then k else k + 1)"
      unfolding py_round_def Let_def fl by simp
    then show ?thesis unfolding eq q using False dv by simp
  qed
qed

lemma chain_table:
  "(if h \<ge> 97 then ''A+'' else if h \<ge> 93 then ''A''
            else if h \<ge> 90 then ''A-'' else if h \<ge> 87 then ''B+''
            else if h \<ge> 83 then ''B'' else if h \<ge> 80 then ''B-''
            else if h \<ge> 77 then ''C+'' else if h \<ge> 73 then ''C''
            else if h \<ge> 70 then ''C-'' else if h \<ge> (60::int) then ''D'' else ''F'') = table_grade grade_table h"
  by (simp add: grade_table_def)

lemma nearest_half: 
  "\<bar>of_int (py_round (1 / 2 * of_int a + 1 / 2 * of_int b)) - (of_int a + of_int b) / 2\<bar> \<le> (1 / 2 :: rat)"
proof -
  have e: "(of_int a + of_int b) / 2 = (1 / 2 * of_int a + 1 / 2 * of_int b :: rat)" by simp
  show ?thesis unfolding e by (rule py_round_nearest)
qed

lemma table_97: "table_grade grade_table 97 = ''A+''" by (simp add: grade_table_def)
lemma table_96: "table_grade grade_table 96 = ''A''" by (simp add: grade_table_def)

text \<open>
  Claim C1.  For every job text and candidate text, in both versions of
  \<open>composite_scores\<close>, the hire likelihood is Python's \<open>round\<close> of
  \<open>0.5 * coverage + 0.5 * scanHealth\<close>, which lies within one half of that mean, and
  the grade is the step function of the table with the inclusive lower bounds 97, 93,
  90, 87, 83, 80, 77, 73, 70 and 60, and F below; a hire likelihood of 97 is graded A+
  and one of 96 is graded A.
\<close>

theorem composite_scores_hire_grade:
  "(let s = composite_scores_v11 ats jd txt in
      hire s = py_round (1 / 2 * of_int (match s) + 1 / 2 * of_int (scan s)) \<and>
      \<bar>of_int (hire s) - (of_int (match s) + of_int (scan s)) / 2\<bar> \<le> (1 / 2 :: rat) \<and>
      grade s = table_grade grade_table (hire s) \<and>
      (hire s = 97 \<longrightarrow> grade s = ''A+'') \<and> (hire s = 96 \<longrightarrow> grade s = ''A''))
   \<and> (let s = composite_scores ats jd txt in
      hire s = py_round (1 / 2 * of_int (match s) + 1 / 2 * of_int (scan s)) \<and>
      \<bar>of_int (hire s) - (of_int (match s) + of_int (scan s)) / 2\<bar> \<le> (1 / 2 :: rat) \<and>
      grade s = table_grade grade_table (hire s) \<and>
      (hire s = 97 \<longrightarrow> grade s = ''A+'') \<and> (hire s = 96 \<longrightarrow> grade s = ''A''))"
proof -
  have v11: "grade (composite_scores_v11 ats jd txt)
      = table_grade grade_table (hire (composite_scores_v11 ats jd txt))"
    unfolding composite_scores_v11_def Let_def by (simp only: chain_table scores.simps)
  have fat: "grade (composite_scores ats jd txt)
      = table_grade grade_table (hire (composite_scores ats jd txt))"
    unfolding composite_scores_def Let_def by (simp only: letter_grade_table scores.simps)
  have h1: "hire (composite_scores_v11 ats jd txt)
      = py_round (1 / 2 * of_int (match (composite_scores_v11 ats jd txt))
                  + 1 / 2 * of_int (scan (composite_scores_v11 ats jd txt)))"
    unfolding composite_scores_v11_def Let_def by (simp only: scores.simps)
  have h2: "hire (composite_scores ats jd txt)
      = py_round (1 / 2 * of_int (match (composite_scores ats jd txt))
                  + 1 / 2 * of_int (scan (composite_scores ats jd txt)))"
    unfolding composite_scores_def Let_def by (simp only: scores.simps)
  have n1: "\<bar>of_int (hire (composite_scores_v11 ats jd txt))
      - (of_int (match (composite_scores_v11 ats jd txt))
         + of_int (scan (composite_scores_v11 ats jd txt))) / 2\<bar> \<le> (1 / 2 :: rat)"
    by (subst h1) (rule nearest_half)
  have n2: "\<bar>of_int (hire (composite_scores ats jd txt))
      - (of_int (match (composite_scores ats jd txt))
         + of_int (scan (composite_scores ats jd txt))) / 2\<bar> \<le> (1 / 2 :: rat)"
    by (subst h2) (rule nearest_half)
  show ?thesis
    unfolding Let_def using v11 fat h1 h2 n1 n2 table_97 table_96 by metis
qed

theorem composite_scores_hire_grade_witness:
  "hire (composite_scores_v11 (\<lambda>_. 94) ''ab'' ''ab'') = 97 \<and>
   grade (composite_scores_v11 (\<lambda>_. 94) ''ab'' ''ab'') = ''A+'' \<and>
   hire (composite_scores (\<lambda>_. 92) ''ab'' ''ab'') = 96 \<and>
   grade (composite_scores (\<lambda>_. 92) ''ab'' ''ab'') = ''A''"
proof -
  have a: "hire (composite_scores_v11 (\<lambda>_. 94) ''ab'' ''ab'') = 97" by code_simp
  have b: "hire (composite_scores (\<lambda>_. 92) ''ab'' ''ab'') = 96" by code_simp
  show ?thesis
    using a b composite_scores_hire_grade[of "\<lambda>_. 94" "''ab''" "''ab''"]
      composite_scores_hire_grade[of "\<lambda>_. 92" "''ab''" "''ab''"]
    unfolding Let_def by blast
qed

lemma coverage_full_gen:
  assumes "finite J" "J \<noteq> {}" "J \<subseteq> T"
  shows "py_round (of_nat (100 * card (J \<inter> T)) / of_nat (max 1 (card J))) = 100"
proof -
  have c: "card J > 0" using assms by (simp add: card_gt_0_iff)
  have i: "J \<inter> T = J" using assms by auto
  have "(of_nat (100 * card J) / of_nat (max 1 (card J)) :: rat) = of_int 100"
    using c by (simp add: max_def)
  then show ?thesis unfolding i by (simp only: py_round_of_int)
qed

text \<open>
  Claim C7, amended.  For every job text whose keyword set is not empty and every
  candidate text whose keyword set includes it, the coverage score is 100, in both
  versions of \<open>composite_scores\<close>.  A job text that is not empty but has no keyword
  (only digits, say) scores 0, through the floor \<open>max(1, ...)\<close>.
\<close>

theorem coverage_full_when_keywords_covered:
  "(kw_set_v11 jd 400 \<noteq> {} \<and> kw_set_v11 jd 400 \<subseteq> kw_set_v11 txt 400
      \<longrightarrow> match (composite_scores_v11 ats jd txt) = 100)
   \<and> (kw_set jd 400 \<noteq> {} \<and> kw_set jd 400 \<subseteq> kw_set txt 400
      \<longrightarrow> match (composite_scores ats jd txt) = 100)"
proof -
  have f1: "finite (kw_set_v11 jd 400)" by (simp add: kw_set_v11_def)
  have f2: "finite (kw_set jd 400)" by (simp add: kw_set_def)
  show ?thesis
    unfolding composite_scores_v11_def composite_scores_def Let_def
    using coverage_full_gen[OF f1] coverage_full_gen[OF f2] by simp
qed

theorem coverage_full_when_keywords_covered_witness:
  "kw_set_v11 ''lead adoption'' 400 \<noteq> {} \<and>
   kw_set_v11 ''lead adoption'' 400 \<subseteq> kw_set_v11 ''Adoption lead, 14%'' 400 \<and>
   match (composite_scores_v11 (\<lambda>_. 0) ''lead adoption'' ''Adoption lead, 14%'') = 100 \<and>
   kw_set ''lead the adoption'' 400 \<noteq> {} \<and>
   kw_set ''lead the adoption'' 400 \<subseteq> kw_set ''Adoption lead, 14%'' 400 \<and>
   match (composite_scores (\<lambda>_. 0) ''lead the adoption'' ''Adoption lead, 14%'') = 100"
proof -
  have a: "kw_set_v11 ''lead adoption'' 400 \<noteq> {}" by code_simp
  have b: "kw_set_v11 ''lead adoption'' 400 \<subseteq> kw_set_v11 ''Adoption lead, 14%'' 400" by code_simp
  have c: "kw_set ''lead the adoption'' 400 \<noteq> {}" by code_simp
  have d: "kw_set ''lead the adoption'' 400 \<subseteq> kw_set ''Adoption lead, 14%'' 400" by code_simp
  show ?thesis
    using a b c d
      coverage_full_when_keywords_covered[of "''lead adoption''" "''Adoption lead, 14%''" "\<lambda>_. 0"]
      coverage_full_when_keywords_covered[of "''lead the adoption''" "''Adoption lead, 14%''" "\<lambda>_. 0"]
    by blast
qed

theorem coverage_nonempty_job_text_counterexample:
  "\<not> (''42'' \<noteq> [] \<and> kw_set_v11 ''42'' 400 \<subseteq> kw_set_v11 [] 400
        \<longrightarrow> match (composite_scores_v11 (\<lambda>_. 0) ''42'' []) = 100)"
  by code_simp

subsection \<open>Keyword sets\<close>

lemma kw_loop_out: "kw_loop ts seen out = out @ kw_loop ts seen []"
proof (induction ts arbitrary: seen out)
  case Nil
  show ?case by simp
next
  case (Cons t ts)
  show ?case
    using Cons.IH[of "insert t seen" "out @ [t]"] Cons.IH[of "insert t seen" "[t]"] Cons.IH[of seen out]
    by simp
qed

lemma kw_loop_Cons:
  "kw_loop (t # ts) seen [] =
     (if t \<in> seen then kw_loop ts seen [] else t # kw_loop ts (insert t seen) [])"
  using kw_loop_out[of ts "insert t seen" "[t]"] by simp

lemma remdups_snoc: "remdups (xs @ [t]) = filter (\<lambda>x. x \<noteq> t) (remdups xs) @ [t]"
  by (induction xs) auto

lemma kw_loop_first_seen:
  "kw_loop ts seen [] = rev (remdups (rev (filter (\<lambda>t. t \<notin> seen) ts)))"
proof (induction ts arbitrary: seen)
  case Nil
  show ?case by simp
next
  case (Cons t ts)
  show ?case
  proof (cases "t \<in> seen")
    case True
    then show ?thesis using Cons.IH[of seen] by (subst kw_loop_Cons) simp
  next
    case False
    have f: "filter (\<lambda>x. x \<noteq> t) (remdups (rev (filter (\<lambda>t. t \<notin> seen) ts)))
        = remdups (rev (filter (\<lambda>x. x \<notin> insert t seen) ts))"
      by (simp add: remdups_filter[symmetric] rev_filter[symmetric] conj_commute)
    have "kw_loop (t # ts) seen [] = t # kw_loop ts (insert t seen) []"
      using False by (subst kw_loop_Cons) simp
    also have "\<dots> = t # rev (remdups (rev (filter (\<lambda>x. x \<notin> insert t seen) ts)))"
      by (simp only: Cons.IH[of "insert t seen"])
    also have "\<dots> = rev (remdups (rev (filter (\<lambda>t. t \<notin> seen) ts) @ [t]))"
      by (simp only: remdups_snoc f rev_append rev.simps append.simps)
    finally show ?thesis using False by simp
  qed
qed

lemma kw_loop_distinct: "distinct (kw_loop ts seen [])"
  by (simp add: kw_loop_first_seen)

lemma kw_loop_set: "set (kw_loop ts seen []) = set ts - seen"
  by (auto simp: kw_loop_first_seen)

lemma runs_tokens:
  "t \<in> set (runs P n cur s) \<Longrightarrow> n \<le> length t \<and> set t \<subseteq> set cur \<union> {c \<in> set s. P c}"
proof (induction s arbitrary: cur)
  case Nil
  then show ?case by (auto split: if_splits)
next
  case (Cons c cs)
  show ?case
  proof (cases "P c")
    case True
    with Cons.prems have "t \<in> set (runs P n (cur @ [c]) cs)" by simp
    from Cons.IH[OF this] True show ?thesis by auto
  next
    case False
    with Cons.prems have "t \<in> set (if n \<le> length cur then [cur] else []) \<or> t \<in> set (runs P n [] cs)"
      by simp
    then show ?thesis
    proof
      assume "t \<in> set (if n \<le> length cur then [cur] else [])"
      then show ?thesis by (auto split: if_splits)
    next
      assume "t \<in> set (runs P n [] cs)"
      from Cons.IH[OF this] show ?thesis by auto
    qed
  qed
qed

lemma lower_char_alpha: "is_alpha (lower_char c) \<Longrightarrow> is_lower_alpha (lower_char c)"
  unfolding lower_char_def is_alpha_def is_lower_alpha_def code_def Let_def
  by (auto split: if_splits)

lemma token_shape:
  assumes "t \<in> set (runs is_alpha 2 [] (lower text))"
  shows "2 \<le> length t \<and> list_all is_lower_alpha t"
proof -
  from runs_tokens[OF assms] have l: "2 \<le> length t"
    and s: "set t \<subseteq> {c \<in> set (lower text). is_alpha c}" by auto
  have "is_lower_alpha c" if "c \<in> set t" for c
  proof -
    from that s have "c \<in> set (lower text)" "is_alpha c" by auto
    then obtain c' where "c = lower_char c'" by (auto simp: lower_def)
    with \<open>is_alpha c\<close> show ?thesis using lower_char_alpha by simp
  qed
  with l show ?thesis by (simp add: list_all_iff)
qed

lemma py_take_nonneg: "0 \<le> n \<Longrightarrow> py_take n xs = take (nat n) xs"
  by (simp add: py_take_def)

text \<open>
  What the keyword set of the versions with the stop-word filter satisfies, for a cap
  that is not negative.
\<close>

lemma kw_list_properties:
  assumes "0 \<le> cap"
  shows "kw_list text cap = take (nat cap) (rev (remdups (rev (clean_tokens text))))"
    and "distinct (kw_list text cap)"
    and "int (length (kw_list text cap)) \<le> cap"
    and "t \<in> kw_set text cap \<Longrightarrow> 2 \<le> length t \<and> list_all is_lower_alpha t \<and> t \<notin> STOPWORDS"
proof -
  show a: "kw_list text cap = take (nat cap) (rev (remdups (rev (clean_tokens text))))"
    using assms by (simp add: kw_list_def py_take_nonneg kw_loop_first_seen)
  show "distinct (kw_list text cap)" unfolding a by (simp add: distinct_take)
  show "int (length (kw_list text cap))  \<le> cap" unfolding a using assms by simp
  assume "t \<in> kw_set text cap"
  then have "t \<in> set (clean_tokens text)"
    unfolding kw_set_def a by (auto dest: in_set_takeD)
  then show "2 \<le> length t \<and> list_all is_lower_alpha t \<and> t \<notin> STOPWORDS"
    using token_shape[of t "text"] by (auto simp: clean_tokens_def)
qed

text \<open>The same for HogueResMaster\_v11.py, where no token is dropped.\<close>

lemma kw_list_v11_properties:
  assumes "0 \<le> cap"
  shows "kw_list_v11 text cap = take (nat cap) (rev (remdups (rev (clean_tokens_v11 text))))"
    and "distinct (kw_list_v11 text cap)"
    and "int (length (kw_list_v11 text cap)) \<le> cap"
    and "t \<in> kw_set_v11 text cap \<Longrightarrow> 2 \<le> length t \<and> list_all is_lower_alpha t"
proof -
  show a: "kw_list_v11 text cap = take (nat cap) (rev (remdups (rev (clean_tokens_v11 text))))"
    using assms by (simp add: kw_list_v11_def py_take_nonneg kw_loop_first_seen)
  show "distinct (kw_list_v11 text cap)" unfolding a by (simp add: distinct_take)
  show "int (length (kw_list_v11 text cap))  \<le> cap" unfolding a using assms by simp
  assume "t \<in> kw_set_v11 text cap"
  then have "t \<in> set (clean_tokens_v11 text)"
    unfolding kw_set_v11_def a by (auto dest: in_set_takeD)
  then show "2 \<le> length t \<and> list_all is_lower_alpha t"
    using token_shape[of t "text"] by (auto simp: clean_tokens_v11_def)
qed

text \<open>
  Claim C8 at the text "the cat": \<open>kw_set\<close> of HogueResMaster\_v11.py keeps the
  stop word "the", which \<open>kw_set\<close> of the two other versions drops.
\<close>

theorem kw_set_v11_keeps_stopwords:
  "''the'' \<in> STOPWORDS \<and> kw_list_v11 ''the cat'' 400 = [''the'', ''cat''] \<and>
   ''the'' \<in> kw_set_v11 ''the cat'' 400 \<and> kw_list ''the cat'' 400 = [''cat'']"
  by code_simp

subsection \<open>Evidence guard\<close>

lemma guard_loop_keeps: "guard_loop basis ls kept = kept @ ls"
  by (induction ls arbitrary: kept) (simp_all add: Let_def)

text \<open>
  Claim C10.  With the evidence-only flag on, \<open>evidence_guard\<close> returns the lines
  of the cover text that are not blank, joined by line feeds, whatever the resume text
  and the job text are: two calls on the same cover text give the same result.
\<close>

theorem evidence_guard_keeps_nonblank_lines:
  assumes "evidence_only fl"
  shows "evidence_guard fl cover_text resume_text jd_text
           = join newline (filter (\<lambda>l. strip l \<noteq> []) (splitlines cover_text))
       \<and> evidence_guard fl cover_text resume_text jd_text
           = evidence_guard fl cover_text resume_text' jd_text'"
  using assms by (simp add: evidence_guard_def Let_def guard_loop_keeps)

theorem evidence_guard_keeps_nonblank_lines_witness:
  "evidence_only V11 \<and>
   evidence_guard V11 sample_cover ''built'' ''tools'' = ''Dear team,'' @ newline @ ''I built tools.'' \<and>
   evidence_guard V11 sample_cover ''built'' ''tools'' = evidence_guard V11 sample_cover [] ''nothing''"
proof -
  have f: "evidence_only V11" by (simp add: V11_def)
  have e: "join newline (filter (\<lambda>l. strip l \<noteq> []) (splitlines sample_cover))
           = ''Dear team,'' @ newline @ ''I built tools.''"
    unfolding sample_cover_def by code_simp
  note th = evidence_guard_keeps_nonblank_lines[OF f, of sample_cover "''built''" "''tools''" "[]" "''nothing''"]
  have g: "evidence_guard V11 sample_cover ''built'' ''tools'' = ''Dear team,'' @ newline @ ''I built tools.''"
    unfolding e[symmetric] using th by (rule conjunct1)
  show ?thesis using f g th by blast
qed

subsection \<open>Federal signal\<close>

text \<open>
  Claim C9, amended.  \<open>detect_signals\<close> reports the federal signal exactly when
  the lowered resume and job text contains "usajobs", " gs-" or "specialized
  experience"; the phrase "11:59 p.m. Eastern" is what \<open>detect_closing_et\<close> looks
  for, and it answers with the closing note.  In the scenario of the specification the
  federal signal is therefore not detected, and the closing note is produced.
\<close>

theorem federal_signal_rule:
  "(''federal'' \<in> detect_signals resume_txt jd_txt
      \<longleftrightarrow> any_in (lower (resume_txt @ '' '' @ jd_txt))
            [''usajobs'', '' gs-'', ''specialized experience''])
   \<and> (detect_closing_et jd_txt = ''Submit by 11:59 p.m. Eastern Time on the closing date.''
      \<longleftrightarrow> search closing_at (lower jd_txt))"
  by (simp add: detect_signals_def detect_closing_et_def Let_def)

theorem federal_signal_rule_witness:
  "\<not> any_in (lower (scenario_cv @ '' '' @ scenario_jd))
        [''usajobs'', '' gs-'', ''specialized experience''] \<and>
   ''federal'' \<notin> detect_signals scenario_cv scenario_jd \<and>
   search closing_at (lower scenario_jd) \<and>
   detect_closing_et scenario_jd = ''Submit by 11:59 p.m. Eastern Time on the closing date.''"
proof -
  have a: "\<not> any_in (lower (scenario_cv @ '' '' @ scenario_jd))
        [''usajobs'', '' gs-'', ''specialized experience'']"
    unfolding scenario_cv_def scenario_jd_def by code_simp
  have b: "search closing_at (lower scenario_jd)"
    unfolding scenario_jd_def by code_simp
  show ?thesis
    using a b federal_signal_rule[of scenario_cv scenario_jd] by blast
qed

theorem federal_signal_scenario_counterexample:
  "\<not> (''federal'' \<in> detect_signals scenario_cv scenario_jd)"
  unfolding scenario_cv_def scenario_jd_def by code_simp

subsection \<open>Metric placeholder\<close>

lemma search_digit:
  "search (\<lambda>s. case s of [] \<Rightarrow> False | c # _ \<Rightarrow> is_digit c) = list_ex is_digit"
proof
  fix x show "search (\<lambda>s. case s of [] \<Rightarrow> False | c # _ \<Rightarrow> is_digit c) x = list_ex is_digit x"
    by (induction x) simp_all
qed

lemma placeholder_shape:
  "\<not> list_ex is_digit metric_placeholder \<and> contains metric_placeholder ''[CONFIRM]''"
  unfolding metric_placeholder_def by code_simp

text \<open>
  \<open>ensure_metric_shell\<close> of HogueResMaster\_v11\_final\_fat.py does what is asked of
  it: one placeholder line in front when no bullet of the first role has a digit, and
  the payload as it was otherwise.
\<close>

lemma ensure_metric_shell_spec:
  assumes "experience p = r # rs"
  shows "\<not> list_ex (list_ex is_digit) (bullets r) \<Longrightarrow>
           ensure_metric_shell p = p\<lparr>experience := r\<lparr>bullets := metric_placeholder # bullets r\<rparr> # rs\<rparr>"
    and "list_ex (list_ex is_digit) (bullets r) \<Longrightarrow> ensure_metric_shell p = p"
  using assms by (simp_all add: ensure_metric_shell_def search_digit)

text \<open>
  Claim C5 at a payload whose only bullet has digits: \<open>inject_metric_shell\<close> of
  HogueResMaster\_v9\_2\_2.py puts the placeholder in front all the same, where
  \<open>ensure_metric_shell\<close> of HogueResMaster\_v11\_final\_fat.py returns the payload
  as it was.
\<close>

theorem inject_metric_shell_ignores_digits:
  "list_ex (list_ex is_digit) [''Grew renewals 14%''] \<and>
   experience (inject_metric_shell digits_payload) =
     [\<lparr>title = ''Lead'', company = ''Co'', dates = ''2020'',
       bullets = [metric_placeholder, ''Grew renewals 14%'']\<rparr>] \<and>
   ensure_metric_shell digits_payload = digits_payload"
  unfolding digits_payload_def by code_simp

subsection \<open>Tightening bullets\<close>

text \<open>
  Claim C3 at two bullets that differ only after their 180th character:
  \<open>tighten_bullets\<close> returns two equal lines, and applied to its own result it
  returns one.
\<close>

theorem tighten_bullets_long_lines:
  "tighten_bullets V11 long_bullets 6 = [replicate 180 (CHR ''a''), replicate 180 (CHR ''a'')] \<and>
   tighten_bullets V11 (tighten_bullets V11 long_bullets 6) 6 = [replicate 180 (CHR ''a'')]"
  unfolding long_bullets_def by code_simp

lemma tighten_bullets_cut_at_space:
  "tighten_bullets V11 [replicate 179 (CHR ''a'') @ '' b''] 6 = [replicate 179 (CHR ''a'') @ '' ''] \<and>
   tighten_bullets V11 (tighten_bullets V11 [replicate 179 (CHR ''a'') @ '' b''] 6) 6
     = [replicate 179 (CHR ''a'')]"
  by code_simp

lemma tighten_bullets_cap_zero: "tighten_bullets V11 [''a'', ''b''] 0 = [''a'']"
  by code_simp

lemma tighten_loop_length:
  "int (length cleaned) < m \<Longrightarrow> int (length (tighten_loop bs m seen cleaned)) \<le> m"
  by (induction bs arbitrary: seen cleaned) (auto simp: Let_def)

lemma tighten_bullets_length:
  "dedup_tighten fl \<Longrightarrow> 1 \<le> n \<Longrightarrow> int (length (tighten_bullets fl bs n)) \<le> n"
  using tighten_loop_length[of "[]" n bs "{}"] by (simp add: tighten_bullets_def)

lemma collapse_ws_idem: "collapse_ws w (collapse_ws w s) = collapse_ws w s"
proof (induction s arbitrary: w)
  case Nil
  show ?case by simp
next
  case (Cons c cs)
  have sp: "isspace (CHR '' '')" by code_simp
  show ?case using Cons.IH[of True] Cons.IH[of False] sp by simp
qed

lemma collapse_ws_last:
  "s \<noteq> [] \<Longrightarrow> \<not> isspace (last s) \<Longrightarrow> collapse_ws w s \<noteq> [] \<and> last (collapse_ws w s) = last s"
proof (induction s arbitrary: w)
  case Nil
  then show ?case by simp
next
  case (Cons c cs)
  show ?case
  proof (cases "cs = []")
    case True
    with Cons.prems show ?thesis by simp
  next
    case False
    with Cons.prems have "\<not> isspace (last cs)" by simp
    from Cons.IH[OF False this] show ?thesis using False by auto
  qed
qed

lemma dropWhile_last: "dropWhile P xs \<noteq> [] \<Longrightarrow> last (dropWhile P xs) = last xs"
  by (induction xs) (auto split: if_splits)

lemma trimmed_strip: "trimmed (strip s)"
proof -
  define u where "u = dropWhile isspace (rev (dropWhile isspace s))"
  show ?thesis
  proof (cases "u = []")
    case True
    then show ?thesis by (simp add: trimmed_def strip_def u_def)
  next
    case False
    then have h: "\<not> isspace (hd u)" unfolding u_def by (metis hd_dropWhile)
    have d: "dropWhile isspace s \<noteq> []"
    proof
      assume e: "dropWhile isspace s = []"
      have "u = []" unfolding u_def e by simp
      with False show False by simp
    qed
    have "last u = last (rev (dropWhile isspace s))"
      using False unfolding u_def by (rule dropWhile_last)
    also have "\<dots> = hd (dropWhile isspace s)" using d by (simp add: last_rev)
    finally have l: "\<not> isspace (last u)" using d by (metis hd_dropWhile)
    have "strip s = rev u" by (simp add: strip_def u_def)
    then show ?thesis using False h l by (simp add: trimmed_def hd_rev last_rev)
  qed
qed

lemma strip_trimmed: "trimmed s \<Longrightarrow> strip s = s"
proof (cases s)
  case Nil
  then show ?thesis by (simp add: strip_def)
next
  case (Cons c cs)
  assume "trimmed s"
  with Cons have a: "\<not> isspace c" and b: "\<not> isspace (last s)" by (auto simp: trimmed_def)
  have "dropWhile isspace s = s" using a Cons by simp
  moreover have "dropWhile isspace (rev s) = rev s"
  proof -
    have "hd (rev s) = last s" using Cons by (simp add: hd_rev)
    with b show ?thesis by (simp add: dropWhile_eq_self_iff)
  qed
  ultimately show ?thesis by (simp add: strip_def)
qed

lemma trimmed_collapse: "trimmed s \<Longrightarrow> trimmed (collapse_ws False s)"
proof (cases s)
  case Nil
  then show ?thesis by (simp add: trimmed_def)
next
  case (Cons c cs)
  assume "trimmed s"
  with Cons have a: "\<not> isspace c" and b: "\<not> isspace (last s)" by (auto simp: trimmed_def)
  have "s \<noteq> []" using Cons by simp
  from collapse_ws_last[OF this b, of False]
  have "collapse_ws False s \<noteq> []" "last (collapse_ws False s) = last s" by auto
  moreover have "hd (collapse_ws False s) = c" using Cons a by simp
  ultimately show ?thesis using a b by (simp add: trimmed_def)
qed

lemma clean_line_idem: "clean_line (clean_line b) = clean_line b"
proof -
  have "trimmed (clean_line b)" unfolding clean_line_def by (rule trimmed_collapse[OF trimmed_strip])
  then have "strip (clean_line b) = clean_line b" by (rule strip_trimmed)
  then have "clean_line (clean_line b) = collapse_ws False (clean_line b)" by (simp add: clean_line_def)
  also have "\<dots> = clean_line b" unfolding clean_line_def by (rule collapse_ws_idem)
  finally show ?thesis .
qed

lemma tighten_loop_fixed:
  assumes "\<forall>x\<in>set xs. clean_line x = x \<and> x \<noteq> [] \<and> length x \<le> 180"
    and "distinct (map lower xs)"
    and "lower ` set xs \<inter> seen = {}"
    and "int (length cleaned + length xs) \<le> m"
  shows "tighten_loop xs m seen cleaned = cleaned @ xs"
  using assms
proof (induction xs arbitrary: seen cleaned)
  case Nil
  show ?case by simp
next
  case (Cons x xs)
  have n: "collapse_ws False (strip x) = x" "x \<noteq> []" "take 180 x = x"
    using Cons.prems(1) by (auto simp: clean_line_def)
  have k: "lower x \<notin> seen" using Cons.prems(3) by auto
  show ?case
  proof (cases "int (length (cleaned @ [x])) \<ge> m")
    case True
    have "int (length cleaned) + 1 + int (length xs) \<le> m" using Cons.prems(4) by simp
    moreover have "m \<le> int (length cleaned) + 1" using True by simp
    ultimately have "length xs = 0" by linarith
    then have "xs = []" by simp
    with True n k show ?thesis by (simp add: Let_def)
  next
    case False
    have "tighten_loop xs m (insert (lower x) seen) (cleaned @ [x]) = (cleaned @ [x]) @ xs"
    proof (rule Cons.IH)
      show "\<forall>x\<in>set xs. clean_line x = x \<and> x \<noteq> [] \<and> length x \<le> 180" using Cons.prems(1) by simp
      show "distinct (map lower xs)" using Cons.prems(2) by simp
      show "lower ` set xs \<inter> insert (lower x) seen = {}" using Cons.prems(2,3) by auto
      show "int (length (cleaned @ [x]) + length xs) \<le> m" using Cons.prems(4) by simp
    qed
    with False n k show ?thesis by (simp add: Let_def)
  qed
qed

lemma tighten_loop_out:
  assumes "\<forall>b\<in>set bs. length (clean_line b) \<le> 180"
    and "\<forall>x\<in>set cleaned. clean_line x = x \<and> x \<noteq> [] \<and> length x \<le> 180"
    and "distinct (map lower cleaned)"
    and "lower ` set cleaned \<subseteq> seen"
  shows "(\<forall>x\<in>set (tighten_loop bs m seen cleaned). clean_line x = x \<and> x \<noteq> [] \<and> length x \<le> 180)
         \<and> distinct (map lower (tighten_loop bs m seen cleaned))"
  using assms
proof (induction bs arbitrary: seen cleaned)
  case Nil
  then show ?case by simp
next
  case (Cons b bs)
  have rest: "\<forall>b\<in>set bs. length (clean_line b) \<le> 180" using Cons.prems(1) by simp
  have lb: "length (clean_line b) \<le> 180" using Cons.prems(1) by simp
  show ?case
  proof (cases "clean_line b = [] \<or> lower (clean_line b) \<in> seen")
    case True
    then have "tighten_loop (b # bs) m seen cleaned = tighten_loop bs m seen cleaned"
      by (auto simp: Let_def clean_line_def)
    then show ?thesis using Cons.IH[OF rest Cons.prems(2,3,4)] by simp
  next
    case False
    define cleaned' where "cleaned' = cleaned @ [clean_line b]"
    have c1: "\<forall>x\<in>set cleaned'. clean_line x = x \<and> x \<noteq> [] \<and> length x \<le> 180"
      using Cons.prems(2) False lb by (auto simp: cleaned'_def clean_line_idem)
    have c2: "distinct (map lower cleaned')"
      using Cons.prems(3,4) False by (auto simp: cleaned'_def)
    have c3: "lower ` set cleaned' \<subseteq> insert (lower (clean_line b)) seen"
      using Cons.prems(4) by (auto simp: cleaned'_def)
    have t: "take 180 (clean_line b) = clean_line b" using lb by simp
    have "tighten_loop (b # bs) m seen cleaned =
        (if int (length cleaned') \<ge> m then cleaned'
         else tighten_loop bs m (insert (lower (clean_line b)) seen) cleaned')"
      using False t by (simp add: Let_def clean_line_def[symmetric] cleaned'_def)
    then show ?thesis using Cons.IH[OF rest c1 c2 c3] c1 c2 by (auto simp del: tighten_loop.simps)
  qed
qed

text \<open>
  Where \<open>tighten_bullets\<close> does what is asked of it: a cap of at least 1, and no
  cleaned line longer than the 180 characters the function keeps.
\<close>

lemma tighten_bullets_short_lines:
  assumes "dedup_tighten fl" and "1 \<le> n" and "\<forall>b\<in>set bs. length (clean_line b) \<le> 180"
  shows "tighten_bullets fl (tighten_bullets fl bs n) n = tighten_bullets fl bs n"
    and "int (length (tighten_bullets fl bs n)) \<le> n"
    and "distinct (map lower (tighten_bullets fl bs n))"
proof -
  define out where "out = tighten_loop bs n {} []"
  have o: "(\<forall>x\<in>set out. clean_line x = x \<and> x \<noteq> [] \<and> length x \<le> 180) \<and> distinct (map lower out)"
    unfolding out_def by (rule tighten_loop_out[OF assms(3)]) simp_all
  have l: "int (length out) \<le> n"
    unfolding out_def using tighten_loop_length[of "[]" n bs "{}"] assms(2) by simp
  have "tighten_loop out n {} [] = [] @ out"
    by (rule tighten_loop_fixed) (use o l in auto)
  then show "tighten_bullets fl (tighten_bullets fl bs n) n = tighten_bullets fl bs n"
    using assms(1) by (simp add: tighten_bullets_def out_def)
  show "int (length (tighten_bullets fl bs n)) \<le> n"
    using l assms(1) by (simp add: tighten_bullets_def out_def)
  show "distinct (map lower (tighten_bullets fl bs n))"
    using o assms(1) by (simp add: tighten_bullets_def out_def)
qed

subsection \<open>Keyword injection\<close>

lemma core_loop_appends:
  "\<exists>cs. core_loop ts core = core @ cs \<and> length cs \<le> length ts \<and> distinct cs
        \<and> set cs \<inter> set core = {} \<and> set cs \<subseteq> title_case ` set ts"
proof (induction ts arbitrary: core)
  case Nil
  show ?case by simp
next
  case (Cons t ts)
  show ?case
  proof (cases "title_case t \<in> set core")
    case True
    from Cons.IH[of core] obtain cs where "core_loop ts core = core @ cs" "length cs \<le> length ts"
      "distinct cs" "set cs \<inter> set core = {}" "set cs \<subseteq> title_case ` set ts" by blast
    with True show ?thesis by auto
  next
    case False
    from Cons.IH[of "core @ [title_case t]"] obtain cs where
      c: "core_loop ts (core @ [title_case t]) = (core @ [title_case t]) @ cs"
      "length cs \<le> length ts" "distinct cs" "set cs \<inter> set (core @ [title_case t]) = {}"
      "set cs \<subseteq> title_case ` set ts" by blast
    have "core_loop (t # ts) core = core @ (title_case t # cs)" using False c(1) by simp
    moreover have "length (title_case t # cs) \<le> length (t # ts)" using c(2) by simp
    moreover have "distinct (title_case t # cs)" using c(3,4) by auto
    moreover have "set (title_case t # cs) \<inter> set core = {}" using c(4) False by auto
    moreover have "set (title_case t # cs) \<subseteq> title_case ` set (t # ts)" using c(5) by auto
    ultimately show ?thesis by blast
  qed
qed

text \<open>
  \<open>inject_missing\<close> at the caps (2, 2, 2): the first two missing keywords go to the
  summary, the next two to the skills, the two after them to the sentence.
\<close>

lemma inject_missing_within_caps:
  fixes p :: payload and ms :: "string list"
  defines "p' \<equiv> inject_missing ms p (2, 2, 2)"
  shows "summary p' = summary p \<or>
          (\<exists>ks. length ks \<le> 2 \<and> set ks \<subseteq> set ms \<and>
             summary p' = strip (summary p @ (if summary p \<noteq> [] then '' '' else [])
                                 @ ''Focus: '' @ join '', '' ks @ ''.''))"
    and "\<exists>cs. core_items p' = core_items p @ cs \<and> length cs \<le> 2 \<and> distinct cs
              \<and> set cs \<inter> set (core_items p) = {} \<and> set cs \<subseteq> title_case ` set ms"
    and "experience p' = experience p \<or>
          (\<exists>r rs add. experience p = r # rs \<and> length add \<le> 2 \<and> set add \<subseteq> set ms \<and>
             experience p' = r\<lparr>bullets := (''Advanced '' @ join '', '' add
                 @ '' initiatives aligned to role requirements.'') # bullets r\<rparr> # rs)"
proof -
  obtain cs where cs: "core_loop (take 2 (drop 2 ms)) (core_items p) = core_items p @ cs"
    "length cs \<le> length (take 2 (drop 2 ms))" "distinct cs" "set cs \<inter> set (core_items p) = {}"
    "set cs \<subseteq> title_case ` set (take 2 (drop 2 ms))"
    using core_loop_appends by blast
  have l2: "length cs \<le> 2" using cs(2) by simp
  have sub: "set cs \<subseteq> title_case ` set ms"
    using cs(5) by (meson image_mono in_set_dropD in_set_takeD subsetI subset_trans)
  have k1: "length (take 2 ms) \<le> 2 \<and> set (take 2 ms) \<subseteq> set ms"
    by (simp add: set_take_subset)
  have k3: "length (take 2 (drop 2 (drop 2 ms))) \<le> 2 \<and> set (take 2 (drop 2 (drop 2 ms))) \<subseteq> set ms"
    by (auto dest: in_set_takeD in_set_dropD)
  have s: "summary p' = summary p \<or>
      summary p' = strip (summary p @ (if summary p \<noteq> [] then '' '' else [])
                                 @ ''Focus: '' @ join '', '' (take 2 ms) @ ''.'')"
    unfolding p'_def inject_missing_def
    by (simp add: py_take_def py_drop_def Let_def split: list.splits)
  then show "summary p' = summary p \<or>
          (\<exists>ks. length ks \<le> 2 \<and> set ks \<subseteq> set ms \<and>
             summary p' = strip (summary p @ (if summary p \<noteq> [] then '' '' else [])
                                 @ ''Focus: '' @ join '', '' ks @ ''.''))"
    using k1 by blast
  have c: "core_items p' = core_items p \<or> core_items p' = core_items p @ cs"
    unfolding p'_def inject_missing_def using cs(1)
    by (simp add: py_take_def py_drop_def Let_def split: list.splits)
  then show "\<exists>cs. core_items p' = core_items p @ cs \<and> length cs \<le> 2 \<and> distinct cs
              \<and> set cs \<inter> set (core_items p) = {} \<and> set cs \<subseteq> title_case ` set ms"
  proof
    assume "core_items p' = core_items p"
    then have "core_items p' = core_items p @ [] \<and> length ([]::string list) \<le> 2
        \<and> distinct ([]::string list) \<and> set [] \<inter> set (core_items p) = {}
        \<and> set [] \<subseteq> title_case ` set ms" by simp
    then show ?thesis by blast
  next
    assume "core_items p' = core_items p @ cs"
    with l2 cs(3,4) sub show ?thesis by blast
  qed
  have e: "experience p' = experience p \<or>
      (\<exists>r rs. experience p = r # rs \<and>
         experience p' = r\<lparr>bullets := (''Advanced '' @ join '', '' (take 2 (drop 2 (drop 2 ms)))
                 @ '' initiatives aligned to role requirements.'') # bullets r\<rparr> # rs)"
    unfolding p'_def inject_missing_def
    by (simp add: py_take_def py_drop_def Let_def split: list.splits)
  then show "experience p' = experience p \<or>
          (\<exists>r rs add. experience p = r # rs \<and> length add \<le> 2 \<and> set add \<subseteq> set ms \<and>
             experience p' = r\<lparr>bullets := (''Advanced '' @ join '', '' add
                 @ '' initiatives aligned to role requirements.'') # bullets r\<rparr> # rs)"
    using k3 by blast
qed

text \<open>
  Claim C4.  With the caps (2, 2, 2), whatever the order in which the set of missing
  keywords is enumerated, \<open>inject_keywords\<close> of either version leaves the summary as
  it was or appends one Focus clause of at most 2 keywords of the job text, appends at
  most 2 entries to the skills, each the title-cased form of a keyword of the job text,
  new to the list and distinct, and leaves the roles as they were or puts one sentence
  naming at most 2 keywords of the job text in front of the first role's bullets.
\<close>

theorem inject_keywords_within_caps:
  assumes enum: "\<And>S. finite S \<Longrightarrow> set (enum S) = S"
    and p': "p' = inject_keywords enum p jd_text (2, 2, 2)
         \<or> p' = inject_keywords_v9 enum p jd_text (2, 2, 2)"
  shows "(summary p' = summary p \<or>
          (\<exists>ks. length ks \<le> 2 \<and> set ks \<subseteq> kw_set jd_text 400 - noise \<and>
             summary p' = strip (summary p @ (if summary p \<noteq> [] then '' '' else [])
                                 @ ''Focus: '' @ join '', '' ks @ ''.'')))
       \<and> (\<exists>cs. core_items p' = core_items p @ cs \<and> length cs \<le> 2 \<and> distinct cs
              \<and> set cs \<inter> set (core_items p) = {}
              \<and> set cs \<subseteq> title_case ` (kw_set jd_text 400 - noise))
       \<and> (experience p' = experience p \<or>
          (\<exists>r rs add. experience p = r # rs \<and> length add \<le> 2
             \<and> set add \<subseteq> kw_set jd_text 400 - noise \<and>
             experience p' = r\<lparr>bullets := (''Advanced '' @ join '', '' add
                 @ '' initiatives aligned to role requirements.'') # bullets r\<rparr> # rs))"
proof -
  have fin: "finite (kw_set jd_text 400 - T)" for T by (simp add: kw_set_def)
  from p' obtain T where T: "p' = inject_missing
      (take 6 (filter (\<lambda>m. m \<notin> noise) (enum (kw_set jd_text 400 - T)))) p (2, 2, 2)"
    unfolding inject_keywords_def inject_keywords_v9_def Let_def by blast
  define ms where "ms = take 6 (filter (\<lambda>m. m \<notin> noise) (enum (kw_set jd_text 400 - T)))"
  have "set ms \<subseteq> set (filter (\<lambda>m. m \<notin> noise) (enum (kw_set jd_text 400 - T)))"
    unfolding ms_def by (rule set_take_subset)
  also have "\<dots> \<subseteq> kw_set jd_text 400 - noise" using enum[OF fin[of T]] by auto
  finally have ms: "set ms \<subseteq> kw_set jd_text 400 - noise" .
  then have tms: "title_case ` set ms \<subseteq> title_case ` (kw_set jd_text 400 - noise)" by (rule image_mono)
  note a = inject_missing_within_caps[of ms p]
  show ?thesis
    unfolding T ms_def[symmetric]
  proof (intro conjI)
    show "summary (inject_missing ms p (2, 2, 2)) = summary p \<or>
          (\<exists>ks. length ks \<le> 2 \<and> set ks \<subseteq> kw_set jd_text 400 - noise \<and>
             summary (inject_missing ms p (2, 2, 2)) =
               strip (summary p @ (if summary p \<noteq> [] then '' '' else [])
                                 @ ''Focus: '' @ join '', '' ks @ ''.''))"
      using a(1) ms by (meson subset_trans)
    show "\<exists>cs. core_items (inject_missing ms p (2, 2, 2)) = core_items p @ cs \<and> length cs \<le> 2
              \<and> distinct cs \<and> set cs \<inter> set (core_items p) = {}
              \<and> set cs \<subseteq> title_case ` (kw_set jd_text 400 - noise)"
      using a(2) tms by (meson subset_trans)
    show "experience (inject_missing ms p (2, 2, 2)) = experience p \<or>
          (\<exists>r rs add. experience p = r # rs \<and> length add \<le> 2
             \<and> set add \<subseteq> kw_set jd_text 400 - noise \<and>
             experience (inject_missing ms p (2, 2, 2)) =
               r\<lparr>bullets := (''Advanced '' @ join '', '' add
                 @ '' initiatives aligned to role requirements.'') # bullets r\<rparr> # rs)"
      using a(3) ms by (meson subset_trans)
  qed
qed

lemma inject_keywords_sample:
  "summary (inject_keywords sorted_list_of_set sample_payload sample_jd (2, 2, 2))
      = ''Summary. Focus: aws, azure.'' \<and>
   core_items (inject_keywords sorted_list_of_set sample_payload sample_jd (2, 2, 2))
      = [''Python'', ''Sql'', ''Docker'', ''Gcp''] \<and>
   map bullets (experience (inject_keywords sorted_list_of_set sample_payload sample_jd (2, 2, 2)))
      = [[''Advanced golang, kubernetes initiatives aligned to role requirements.'',
          ''Led adoption program.'']]"
  unfolding sample_payload_def sample_jd_def by code_simp

theorem inject_keywords_within_caps_witness:
  "summary (inject_keywords sorted_list_of_set sample_payload sample_jd (2, 2, 2))
      = ''Summary. Focus: aws, azure.'' \<and>
   core_items (inject_keywords sorted_list_of_set sample_payload sample_jd (2, 2, 2))
      = [''Python'', ''Sql'', ''Docker'', ''Gcp''] \<and>
   map bullets (experience (inject_keywords sorted_list_of_set sample_payload sample_jd (2, 2, 2)))
      = [[''Advanced golang, kubernetes initiatives aligned to role requirements.'',
          ''Led adoption program.'']] \<and>
   (\<exists>cs. core_items (inject_keywords sorted_list_of_set sample_payload sample_jd (2, 2, 2))
           = core_items sample_payload @ cs \<and> length cs \<le> 2 \<and> distinct cs
         \<and> set cs \<inter> set (core_items sample_payload) = {}
         \<and> set cs \<subseteq> title_case ` (kw_set sample_jd 400 - noise)) \<and>
   (\<exists>cs. core_items (inject_keywords_v9 sorted_list_of_set sample_payload sample_jd (2, 2, 2))
           = core_items sample_payload @ cs \<and> length cs \<le> 2 \<and> distinct cs
         \<and> set cs \<inter> set (core_items sample_payload) = {}
         \<and> set cs \<subseteq> title_case ` (kw_set sample_jd 400 - noise))"
proof -
  have e: "finite S \<Longrightarrow> set (sorted_list_of_set S) = S" for S :: "string set" by simp
  note a = inject_keywords_within_caps[where enum = sorted_list_of_set and p = sample_payload
      and jd_text = sample_jd, OF e disjI1[OF refl]]
  note b = inject_keywords_within_caps[where enum = sorted_list_of_set and p = sample_payload
      and jd_text = sample_jd, OF e disjI2[OF refl]]
  show ?thesis using inject_keywords_sample a b by blast
qed

subsection \<open>Build signature\<close>

lemma sort_key_fst_unique:
  assumes "distinct (map fst xs)" "distinct (map fst ys)" "set xs = set ys"
  shows "sort_key fst xs = sort_key fst ys"
proof (rule map_sorted_distinct_set_unique[where f = fst])
  show "inj_on fst (set (sort_key fst xs) \<union> set (sort_key fst ys))"
    using assms by (simp add: distinct_map)
  show "sorted (map fst (sort_key fst xs))" "sorted (map fst (sort_key fst ys))" by simp_all
  show "distinct (map fst (sort_key fst xs))" using assms(1) by (simp add: distinct_map)
  show "distinct (map fst (sort_key fst ys))" using assms(2) by (simp add: distinct_map)
  show "set (sort_key fst xs) = set (sort_key fst ys)" using assms(3) by simp
qed

lemma dumps_same_dict:
  assumes "distinct (map fst xs)" "distinct (map fst ys)" "map_of xs = map_of ys"
  shows "dumps (JObj xs) = dumps (JObj ys)"
proof -
  have s: "set xs = set ys" using assms by (simp add: map_of_inject_set)
  let ?g = "\<lambda>(k, v). (k, dumps v)"
  have f: "map fst (map ?g zs) = map fst zs" for zs :: "(string \<times> json) list"
    by (induction zs) auto
  have "sort_key fst (map ?g xs) = sort_key fst (map ?g ys)"
  proof (rule sort_key_fst_unique)
    show "distinct (map fst (map ?g xs))" unfolding f by (rule assms(1))
    show "distinct (map fst (map ?g ys))" unfolding f by (rule assms(2))
    show "set (map ?g xs) = set (map ?g ys)" using s by simp
  qed
  then show ?thesis by simp
qed

text \<open>
  Claim C6.  The signature is a function of its four inputs, and two identity
  dictionaries with the same fields and two selection dictionaries with the same
  fields give the same signature, whatever the order in which the fields were
  inserted.
\<close>

theorem build_signature_order_independent:
  assumes "distinct (map fst person)" "distinct (map fst person')" "map_of person = map_of person'"
    and "distinct (map fst selection)" "distinct (map fst selection')"
      "map_of selection = map_of selection'"
  shows "build_signature sha256 resume_text jd_text person selection
       = build_signature sha256 resume_text jd_text person' selection'"
  using dumps_same_dict[OF assms(1,2,3)] dumps_same_dict[OF assms(4,5,6)]
  by (simp add: build_signature_def)

theorem build_signature_order_independent_witness:
  "build_signature (\<lambda>blob. blob) ''resume'' ''job''
      [(''first'', JStr ''Ada''), (''last'', JStr ''Lovelace'')] (selection_of [''classic''])
   = build_signature (\<lambda>blob. blob) ''resume'' ''job''
      [(''last'', JStr ''Lovelace''), (''first'', JStr ''Ada'')] (rev (selection_of [''classic'']))"
proof (rule build_signature_order_independent)
  show "distinct (map fst [(''first'', JStr ''Ada''), (''last'', JStr ''Lovelace'')])" by simp
  show "distinct (map fst [(''last'', JStr ''Lovelace''), (''first'', JStr ''Ada'')])" by simp
  show "map_of [(''first'', JStr ''Ada''), (''last'', JStr ''Lovelace'')]
      = map_of [(''last'', JStr ''Lovelace''), (''first'', JStr ''Ada'')]"
    by (subst map_of_inject_set) auto
  show "distinct (map fst (selection_of [''classic'']))" by (simp add: selection_of_def)
  show "distinct (map fst (rev (selection_of [''classic''])))" by (simp add: selection_of_def)
  show "map_of (selection_of [''classic'']) = map_of (rev (selection_of [''classic'']))"
    by (subst map_of_inject_set) (auto simp: selection_of_def)
qed

subsection \<open>Orchestrator\<close>

lemma no_mark_render: "\<not> list_ex is_mark (map Render ef)"
  by (induction ef) (simp_all add: is_mark_def)

lemma no_mark_remember: "\<not> list_ex is_mark (remember_style fl s)"
  by (simp add: remember_style_def is_mark_def)

text \<open>
  The cache gate of \<open>run_auto\<close>, whatever the generator does.  With idempotent
  runs on: when the signature is cached, \<open>run_auto\<close> returns the empty list and its
  only effects are those that come before the cache test, the output directory made, the session memory rewritten when
  the style memory is on, and the message printed, so that no artifact is rendered or
  bundled and no marker is written; when it is not cached and the run returns, the
  marker of the signature is written exactly once, as the last effect; and a run that
  ends with an exception writes no marker.
\<close>

theorem run_auto_cache_gate:
  fixes gen :: "'s \<Rightarrow> string \<Rightarrow> 's \<times> 'r list \<times> (error + string list)"
    and effs effs' :: "'r effect list"
  assumes sig: "sig = build_signature sha256 resume_text jd_text
                        (map (\<lambda>(k, v). (k, JStr v)) person) (selection_of styles)"
    and on: "idempotent_runs fl" and ne: "sig \<noteq> []"
  shows "(already_built cache sig \<longrightarrow>
            run_auto fl sha256 gen st cache today outdir person company' title' resume_text jd_text styles
              = ([Mkdir outdir] @ remember_style fl (JObj (selection_of styles)) @ [Print skip_message],
                 Inr []))
       \<and> (\<not> already_built cache sig \<and>
            run_auto fl sha256 gen st cache today outdir person company' title' resume_text jd_text styles
              = (effs, Inr files) \<longrightarrow>
            (\<exists>pre. effs = pre @ [MarkBuilt sig] \<and> \<not> list_ex is_mark pre))
       \<and> (run_auto fl sha256 gen st cache today outdir person company' title' resume_text jd_text styles
              = (effs', Inl e) \<longrightarrow> \<not> list_ex is_mark effs')"
proof (intro conjI impI)
  assume "already_built cache sig"
  then show "run_auto fl sha256 gen st cache today outdir person company' title' resume_text jd_text styles
      = ([Mkdir outdir] @ remember_style fl (JObj (selection_of styles)) @ [Print skip_message], Inr [])"
    using on ne unfolding sig by (simp add: run_auto_def Let_def)
next
  assume a: "\<not> already_built cache sig \<and>
    run_auto fl sha256 gen st cache today outdir person company' title' resume_text jd_text styles
      = (effs, Inr files)"
  obtain ef res where sl: "style_loop gen st styles = (ef, res)" by (cases "style_loop gen st styles")
  define before :: "'r effect list"
    where "before = [Mkdir outdir] @ remember_style fl (JObj (selection_of styles))"
  have nb: "\<not> list_ex is_mark before"
    by (simp add: before_def no_mark_remember is_mark_def)
  from a sl on ne obtain all_files base zp where
    b: "zp = ZipFolders (outdir @ ''/'' @ base @ ''_DELIVERABLES.zip'') (buckets all_files)
        \<or> zp = ZipFlat (outdir @ ''/'' @ base @ ''_DELIVERABLES.zip'') all_files"
    and e: "effs = before @ map Render ef @ [zp] @ [MarkBuilt sig]"
    unfolding sig before_def
    by (auto simp: run_auto_def Let_def split: sum.splits if_splits)
  have "\<not> list_ex is_mark (before @ map Render ef @ [zp])"
    using nb no_mark_render[of ef] b by (auto simp: is_mark_def)
  with e show "\<exists>pre. effs = pre @ [MarkBuilt sig] \<and> \<not> list_ex is_mark pre"
    by (intro exI[of _ "before @ map Render ef @ [zp]"]) simp
next
  assume a: "run_auto fl sha256 gen st cache today outdir person company' title' resume_text jd_text styles
      = (effs', Inl e)"
  obtain ef res where sl: "style_loop gen st styles = (ef, res)" by (cases "style_loop gen st styles")
  have "effs' = [Mkdir outdir] @ remember_style fl (JObj (selection_of styles)) @ map Render ef"
    using a sl by (auto simp: run_auto_def Let_def split: sum.splits if_splits)
  then show "\<not> list_ex is_mark effs'"
    using no_mark_render[of ef] no_mark_remember[of fl "JObj (selection_of styles)"]
    by (simp add: is_mark_def)
qed


theorem run_auto_cache_gate_witness:
  "run_auto V11 (\<lambda>blob. ''00'') sample_gen () {''00''} ''2025-08-16'' ''out'' sample_person
       ''Acme'' ''Writer'' ''resume'' ''job'' [''classic'']
     = ([Mkdir ''out'', SaveMemory (JObj (selection_of [''classic''])), Print skip_message], Inr []) \<and>
   run_auto V11 (\<lambda>blob. ''00'') sample_gen () {} ''2025-08-16'' ''out'' sample_person
       ''Acme'' ''Writer'' ''resume'' ''job'' [''classic'']
     = ([Mkdir ''out'', SaveMemory (JObj (selection_of [''classic''])),
         Render ''out/classic_RESUME.docx'',
         ZipFolders ''out/Ada_Lovelace_Acme_Writer_Classic_2025-08-16_DELIVERABLES.zip''
           [(''Resume'', [''out/classic_RESUME.docx'']), (''Cover'', []), (''Guides'', []),
            (''Reports'', []), (''Federal'', [])],
         MarkBuilt ''00''],
        Inr [''out/classic_RESUME.docx'',
             ''out/Ada_Lovelace_Acme_Writer_Classic_2025-08-16_DELIVERABLES.zip'']) \<and>
   (\<exists>pre. [Mkdir ''out'', SaveMemory (JObj (selection_of [''classic''])),
         Render ''out/classic_RESUME.docx'',
         ZipFolders ''out/Ada_Lovelace_Acme_Writer_Classic_2025-08-16_DELIVERABLES.zip''
           [(''Resume'', [''out/classic_RESUME.docx'']), (''Cover'', []), (''Guides'', []),
            (''Reports'', []), (''Federal'', [])],
         MarkBuilt ''00''] = pre @ [MarkBuilt ''00''] \<and> \<not> list_ex is_mark pre) \<and>
   run_auto V11 (\<lambda>blob. ''00'') failing_gen () {} ''2025-08-16'' ''out'' sample_person
       ''Acme'' ''Writer'' ''resume'' ''job'' [''classic'']
     = ([Mkdir ''out'', SaveMemory (JObj (selection_of [''classic''])),
         Render ''out/classic_RESUME.docx''], Inl (Raised ''AttributeError'')) \<and>
   \<not> list_ex is_mark [Mkdir ''out'', SaveMemory (JObj (selection_of [''classic''])),
         Render ''out/classic_RESUME.docx'']"
proof -
  have s: "''00'' = build_signature (\<lambda>blob. ''00'') ''resume'' ''job''
      (map (\<lambda>(k, v). (k, JStr v)) sample_person) (selection_of [''classic''])"
    by (simp add: build_signature_def)
  have on: "idempotent_runs V11" by (simp add: V11_def)
  have ne: "''00'' \<noteq> []" by simp
  have c: "already_built {''00''} ''00''" by (simp add: already_built_def)
  have u: "\<not> already_built {} ''00''" by (simp add: already_built_def)
  have r2: "run_auto V11 (\<lambda>blob. ''00'') sample_gen () {} ''2025-08-16'' ''out'' sample_person
       ''Acme'' ''Writer'' ''resume'' ''job'' [''classic'']
     = ([Mkdir ''out'', SaveMemory (JObj (selection_of [''classic''])),
         Render ''out/classic_RESUME.docx'',
         ZipFolders ''out/Ada_Lovelace_Acme_Writer_Classic_2025-08-16_DELIVERABLES.zip''
           [(''Resume'', [''out/classic_RESUME.docx'']), (''Cover'', []), (''Guides'', []),
            (''Reports'', []), (''Federal'', [])],
         MarkBuilt ''00''],
        Inr [''out/classic_RESUME.docx'',
             ''out/Ada_Lovelace_Acme_Writer_Classic_2025-08-16_DELIVERABLES.zip''])"
    unfolding sample_person_def by code_simp
  have r3: "run_auto V11 (\<lambda>blob. ''00'') failing_gen () {} ''2025-08-16'' ''out'' sample_person
       ''Acme'' ''Writer'' ''resume'' ''job'' [''classic'']
     = ([Mkdir ''out'', SaveMemory (JObj (selection_of [''classic''])),
         Render ''out/classic_RESUME.docx''], Inl (Raised ''AttributeError''))"
    unfolding sample_person_def by code_simp
  have m: "remember_style V11 (JObj (selection_of [''classic'']))
      = [SaveMemory (JObj (selection_of [''classic'']))]"
    by (simp add: remember_style_def V11_def)
  note g1 = run_auto_cache_gate[OF s on ne, where gen = sample_gen and st = "()" and cache = "{''00''}"
      and today = "''2025-08-16''" and outdir = "''out''" and company' = "''Acme''"
      and title' = "''Writer''"]
  note g2 = run_auto_cache_gate[OF s on ne, where gen = sample_gen and st = "()" and cache = "{}"
      and today = "''2025-08-16''" and outdir = "''out''" and company' = "''Acme''"
      and title' = "''Writer''"]
  note g3 = run_auto_cache_gate[OF s on ne, where gen = failing_gen and st = "()" and cache = "{}"
      and today = "''2025-08-16''" and outdir = "''out''" and company' = "''Acme''"
      and title' = "''Writer''"]
  have w1: "run_auto V11 (\<lambda>blob. ''00'') sample_gen () {''00''} ''2025-08-16'' ''out'' sample_person
       ''Acme'' ''Writer'' ''resume'' ''job'' [''classic'']
     = ([Mkdir ''out'', SaveMemory (JObj (selection_of [''classic''])), Print skip_message], Inr [])"
    using g1 c m by simp
  have w2: "\<exists>pre. [Mkdir ''out'', SaveMemory (JObj (selection_of [''classic''])),
         Render ''out/classic_RESUME.docx'',
         ZipFolders ''out/Ada_Lovelace_Acme_Writer_Classic_2025-08-16_DELIVERABLES.zip''
           [(''Resume'', [''out/classic_RESUME.docx'']), (''Cover'', []), (''Guides'', []),
            (''Reports'', []), (''Federal'', [])],
         MarkBuilt ''00''] = pre @ [MarkBuilt ''00''] \<and> \<not> list_ex is_mark pre"
    using g2 u r2 by blast
  have w3: "\<not> list_ex is_mark [Mkdir ''out'', SaveMemory (JObj (selection_of [''classic''])),
         Render ''out/classic_RESUME.docx'']"
    using g3 r3 by blast
  show ?thesis using w1 r2 w2 r3 w3 by blast
qed

theorem cached_run_has_side_effects_counterexample:
  "already_built {''00''} (build_signature (\<lambda>blob. ''00'') ''resume'' ''job''
      (map (\<lambda>(k, v). (k, JStr v)) sample_person) (selection_of [''classic''])) \<and>
   fst (run_auto V11 (\<lambda>blob. ''00'') sample_gen () {''00''} ''2025-08-16'' ''out'' sample_person
       ''Acme'' ''Writer'' ''resume'' ''job'' [''classic''])
     = [Mkdir ''out'', SaveMemory (JObj (selection_of [''classic''])), Print skip_message] \<and>
   fst (run_auto V11 (\<lambda>blob. ''00'') sample_gen () {''00''} ''2025-08-16'' ''out'' sample_person
       ''Acme'' ''Writer'' ''resume'' ''job'' [''classic'']) \<noteq> []"
  unfolding sample_person_def by code_simp

subsection \<open>The orchestrator with the generator as written\<close>

lemma generate_for_style_raises:
  "\<exists>ef e. generate_for_style fl docx_ok today outdir s person company' title' resume_text jd_text pl
            = (ef, Inl e)"
  by (simp add: generate_for_style_def Let_def split: option.splits)

lemma style_loop_v11:
  "style_loop (\<lambda>(st :: unit) s.
      (st, generate_for_style fl docx_ok today outdir s person company' title' resume_text jd_text pl))
      () styles = (ef, Inr files) \<Longrightarrow> styles = []"
proof (cases styles)
  case Nil
  then show ?thesis by simp
next
  case (Cons s ss)
  assume a: "style_loop (\<lambda>(st :: unit) s.
      (st, generate_for_style fl docx_ok today outdir s person company' title' resume_text jd_text pl))
      () styles = (ef, Inr files)"
  obtain ef' e where "generate_for_style fl docx_ok today outdir s person company' title' resume_text
      jd_text pl = (ef', Inl e)" using generate_for_style_raises by blast
  with a Cons show ?thesis by simp
qed

lemma final_base_no_styles: "\<exists>e. final_base person company' title' [] today = Inl e"
  by (simp add: final_base_def split: option.splits)

text \<open>
  No run of \<open>run_auto\<close> of HogueResMaster\_v11.py that finds its signature not cached
  returns: it ends with an exception, writes no marker, and leaves the cache as it was.
\<close>

lemma run_auto_v11_never_returns:
  assumes "sig = build_signature sha256 resume_text jd_text
                   (map (\<lambda>(k, v). (k, JStr v)) person) (selection_of styles)"
    and "\<not> (idempotent_runs fl \<and> sig \<noteq> [] \<and> already_built cache sig)"
  shows "\<exists>effs e. run_auto_v11 fl sha256 docx_ok cache today outdir person company' title'
                     resume_text jd_text styles = (effs, Inl e)
                 \<and> \<not> list_ex is_mark effs \<and> cache_after cache effs = cache"
proof -
  let ?gen = "\<lambda>(st :: unit) s.
      (st, generate_for_style fl docx_ok today outdir s person company' title' resume_text jd_text
             (run_payload fl title'))"
  obtain ef res where sl: "style_loop ?gen () styles = (ef, res)"
    by (cases "style_loop ?gen () styles")
  have "\<exists>e. run_auto_v11 fl sha256 docx_ok cache today outdir person company' title'
                     resume_text jd_text styles
      = ([Mkdir outdir] @ remember_style fl (JObj (selection_of styles)) @ map Render ef, Inl e)"
  proof (cases res)
    case (Inl e)
    with sl assms show ?thesis
      by (auto simp: run_auto_v11_def run_auto_def Let_def)
  next
    case (Inr files)
    with sl have "styles = []" using style_loop_v11 by blast
    then obtain e where "final_base person company' title' styles today = Inl e"
      using final_base_no_styles by blast
    with sl Inr assms show ?thesis
      by (auto simp: run_auto_v11_def run_auto_def Let_def)
  qed
  then obtain e where r: "run_auto_v11 fl sha256 docx_ok cache today outdir person company' title'
                     resume_text jd_text styles
      = ([Mkdir outdir] @ remember_style fl (JObj (selection_of styles)) @ map Render ef, Inl e)"
    by blast
  have nm: "\<not> list_ex is_mark
      ([Mkdir outdir] @ remember_style fl (JObj (selection_of styles)) @ map Render ef :: string effect list)"
    using no_mark_render[of ef] no_mark_remember[of fl "JObj (selection_of styles)"]
    by (simp add: is_mark_def)
  have ca: "cache_after cache effs = cache" if "\<not> list_ex is_mark effs" for effs :: "string effect list"
    using that by (induction effs) (auto simp: cache_after_def is_mark_def split: effect.splits)
  show ?thesis using r nm ca[OF nm] by blast
qed


lemma run_auto_v11_no_styles:
  "run_auto_v11 V11 (\<lambda>blob. blob) True {} ''2025-08-16'' ''out'' sample_person
       ''Acme'' ''Writer'' ''resume'' ''job'' []
     = ([Mkdir ''out'', SaveMemory (JObj (selection_of []))], Inl IndexError)"
  unfolding sample_person_def by code_simp


end
